(* ===== verification/Chain_Prelude.thy ===== *)
theory Chain_Prelude
  imports Main "HOL-Library.Word" "HOL-Library.Signed_Division"
begin

text \<open>
  Shared vocabulary of the development: the machine integer types of the Go
  source (\<open>int32\<close> block heights, \<open>uint32\<close> output indices, \<open>int64\<close> amounts,
  bytes), the facts about signed 32-bit counting that every height loop of
  \<^verbatim>\<open>chain.go\<close> needs, the list of heights a counting loop visits, and the
  collections of unfolding rules the component theories add to.
\<close>

section \<open>Fact collections\<close>

named_theorems int32_simps "reading signed 32-bit words as integers"
named_theorems extract_defs "definitions of the change extractor"
named_theorems replay_defs "definitions of the replay engine"
named_theorems conv_defs "definitions of the converter pipeline"

section \<open>Machine integers\<close>

type_synonym byte = "8 word"
type_synonym bytes = "byte list"
type_synonym int32 = "32 word"
type_synonym uint32 = "32 word"
type_synonym int64 = "64 word"

text \<open>
  Go compares \<open>int32\<close> values as signed numbers and \<open>ht++\<close> wraps around at
  \<open>MaxInt32\<close>. Heights are therefore 32-bit words compared with \<open><s\<close> and
  \<open>\<le>s\<close>; the lemmas below read them back as integers.
\<close>

definition MaxInt32 :: int32 where
  "MaxInt32 = 0x7fffffff"

definition MaxUint32 :: uint32 where
  "MaxUint32 = 0xffffffff"

text \<open>
  The rules that decide signed comparisons and Go's remainder on numerals.
\<close>

lemmas int32_eval = word_sless_alt word_sle_eq smod_int_alt_def

lemma sint_int32_range: "- (2 ^ 31) \<le> sint (x::int32) \<and> sint x < 2 ^ 31"
  using sint_ge [of x] sint_lt [of x] by simp

lemma sint_MaxInt32 [int32_simps]: "sint MaxInt32 = 2 ^ 31 - 1"
  by (simp add: MaxInt32_def)

lemma sle_MaxInt32 [simp]: "x \<le>s MaxInt32"
  using sint_int32_range [of x] by (simp add: word_sle_eq sint_MaxInt32)

lemma sint_eq_iff: "sint (x::int32) = sint y \<longleftrightarrow> x = y"
  by (auto intro: signed_word_eqI)

lemma neq_MaxInt32_iff: "x \<noteq> MaxInt32 \<longleftrightarrow> sint x < 2 ^ 31 - 1"
  using sint_int32_range [of x] sint_eq_iff [of x MaxInt32]
  by (auto simp: sint_MaxInt32)

lemma sint_succ: "sint (x::int32) < 2 ^ 31 - 1 \<Longrightarrow> sint (x + 1) = sint x + 1"
proof -
  assume a: "sint x < 2 ^ 31 - 1"
  have "sint (x + 1) = signed_take_bit 31 (sint x + 1)"
    by (simp add: sint_word_ariths)
  also have "\<dots> = sint x + 1"
    using a sint_int32_range [of x] by (simp add: signed_take_bit_int_eq_self_iff)
  finally show ?thesis .
qed

lemma sless_sint_succ [int32_simps]: "(x::int32) <s y \<Longrightarrow> sint (x + 1) = sint x + 1"
  using sint_int32_range [of y] by (intro sint_succ) (simp add: word_sless_alt)

lemma sint_succ_MaxInt32 [int32_simps]: "sint (MaxInt32 + 1) = - (2 ^ 31)"
  by (simp add: MaxInt32_def)

lemma sless_succ_sle: "(x::int32) <s y \<Longrightarrow> x + 1 \<le>s y"
  by (simp add: word_sle_eq sless_sint_succ) (simp add: word_sless_alt)

lemma sless_imp_succ_sless: "(x::int32) <s y \<Longrightarrow> x <s x + 1"
  by (simp add: word_sless_alt sless_sint_succ)

lemma sless_measure: "(x::int32) <s y \<Longrightarrow> nat (sint y - sint (x + 1)) < nat (sint y - sint x)"
  by (simp add: sless_sint_succ) (simp add: word_sless_alt)

lemma sle_not_max_measure:
  "(x::int32) \<le>s y \<Longrightarrow> y \<noteq> MaxInt32 \<Longrightarrow>
     nat (sint y + 1 - sint (x + 1)) < nat (sint y + 1 - sint x)"
proof -
  assume le: "x \<le>s y" and ne: "y \<noteq> MaxInt32"
  from le ne have "sint x < 2 ^ 31 - 1"
    by (simp add: word_sle_eq neq_MaxInt32_iff)
  then have "sint (x + 1) = sint x + 1" by (rule sint_succ)
  with le show ?thesis by (simp add: word_sle_eq)
qed

text \<open>
  The conversion \<^verbatim>\<open>uint32(i)\<close> of a loop index is \<open>of_nat\<close>; it is injective on
  indices below \<open>2\<^sup>3\<^sup>2\<close>.
\<close>

lemma of_nat_uint32_eq_iff:
  "i < 2 ^ 32 \<Longrightarrow> j < 2 ^ 32 \<Longrightarrow> (of_nat i :: uint32) = of_nat j \<longleftrightarrow> i = j"
  by (simp add: word_of_nat_eq_iff take_bit_nat_eq_self)

section \<open>The heights a counting loop visits\<close>

text \<open>
  \<open>heights a b\<close> lists the values of \<open>ht\<close> in a loop
  \<^verbatim>\<open>for ht := a; ht < b; ht++\<close> over \<open>int32\<close>: ascending, \<open>a\<close> included, \<open>b\<close>
  excluded, empty when \<open>b \<le> a\<close>. The loops of the model are recursive functions
  of their own; this list is what their results are stated over.
\<close>

function heights :: "int32 \<Rightarrow> int32 \<Rightarrow> int32 list" where
  "heights a b = (if a <s b then a # heights (a + 1) b else [])"
  by pat_completeness auto
termination
proof (relation "measure (\<lambda>(a, b). nat (sint b - sint a))")
  fix a b :: int32
  assume "a <s b"
  then show "((a + 1, b), a, b) \<in> measure (\<lambda>(a, b). nat (sint b - sint a))"
    using sless_measure [of a b] by simp
qed simp

declare heights.simps [simp del]

lemma heights_Nil [simp]: "\<not> a <s b \<Longrightarrow> heights a b = []"
  by (subst heights.simps) simp

lemma heights_Cons: "a <s b \<Longrightarrow> heights a b = a # heights (a + 1) b"
  by (subst heights.simps) simp

lemma heights_refl [simp]: "heights a a = []"
  by (simp add: word_sless_alt)

lemma length_heights: "length (heights a b) = nat (sint b - sint a)"
proof (induction a b rule: heights.induct)
  case (1 a b)
  show ?case
  proof (cases "a <s b")
    case True
    with 1 show ?thesis
      by (simp add: heights_Cons sless_sint_succ) (simp add: word_sless_alt)
  next
    case False
    then show ?thesis by (simp add: word_sless_alt)
  qed
qed

lemma set_heights: "set (heights a b) = {h. a \<le>s h \<and> h <s b}"
proof (induction a b rule: heights.induct)
  case (1 a b)
  show ?case
  proof (cases "a <s b")
    case True
    have "a \<le>s h \<and> h <s b \<longleftrightarrow> h = a \<or> a + 1 \<le>s h \<and> h <s b" for h
      using True sint_eq_iff [of h a]
      by (auto simp: word_sle_eq word_sless_alt sless_sint_succ [OF True])
    then have "{h. a \<le>s h \<and> h <s b} = insert a {h. a + 1 \<le>s h \<and> h <s b}"
      by auto
    with 1 True show ?thesis by (simp add: heights_Cons)
  next
    case False
    then show ?thesis by (auto simp: word_sle_eq word_sless_alt)
  qed
qed

lemma heights_snoc: "a \<le>s b \<Longrightarrow> b <s c \<Longrightarrow> heights a (b + 1) = heights a b @ [b]"
proof (induction a b rule: heights.induct)
  case (1 a b)
  from "1.prems" have b1: "sint (b + 1) = sint b + 1" by (simp add: sless_sint_succ)
  show ?case
  proof (cases "a <s b")
    case True
    then have a1: "sint (a + 1) = sint a + 1" by (simp add: sless_sint_succ)
    from True b1 have "a <s b + 1" by (simp add: word_sless_alt)
    moreover from True a1 have "a + 1 \<le>s b" by (simp add: word_sle_eq word_sless_alt)
    ultimately show ?thesis
      using 1 True by (simp add: heights_Cons)
  next
    case False
    with "1.prems" have "a = b"
      using sint_eq_iff [of a b] by (simp add: word_sle_eq word_sless_alt)
    moreover have "b <s b + 1" using b1 by (simp add: word_sless_alt)
    ultimately show ?thesis by (simp add: heights_Cons)
  qed
qed

lemma heights_split: "a \<le>s m \<Longrightarrow> m \<le>s b \<Longrightarrow> heights a b = heights a m @ heights m b"
proof (induction a m rule: heights.induct)
  case (1 a m)
  show ?case
  proof (cases "a <s m")
    case True
    then have "a <s b" "a + 1 \<le>s m"
      using "1.prems" by (auto simp: word_sle_eq word_sless_alt sless_sint_succ [OF True])
    with 1 True show ?thesis by (simp add: heights_Cons)
  next
    case False
    with "1.prems" have "a = m" using sint_eq_iff [of a m]
      by (auto simp: word_sle_eq word_sless_alt)
    then show ?thesis by simp
  qed
qed

lemma of_nat_length_heights: "a \<le>s b \<Longrightarrow> of_nat (length (heights a b)) = b - a"
  by (simp add: length_heights word_sle_eq)

lemma heights_succ_range: "list_all (\<lambda>h. a <s h + 1 \<and> h + 1 \<le>s b) (heights a b)"
proof -
  have "a <s h + 1 \<and> h + 1 \<le>s b" if "h \<in> set (heights a b)" for h
  proof -
    from that have "a \<le>s h" "h <s b" by (simp_all add: set_heights)
    then show ?thesis
      by (simp add: word_sle_eq word_sless_alt sless_sint_succ [of h b])
  qed
  then show ?thesis by (simp add: list_all_iff)
qed

lemma distinct_heights: "distinct (heights a b)"
proof (induction a b rule: heights.induct)
  case (1 a b)
  show ?case
  proof (cases "a <s b")
    case True
    then have "a \<notin> set (heights (a + 1) b)"
      by (simp add: set_heights word_sle_eq sless_sint_succ)
    with 1 True show ?thesis by (simp add: heights_Cons)
  next
    case False
    then show ?thesis by simp
  qed
qed

section \<open>Lists\<close>

lemma filter_nonempty_concat: "concat (filter (\<lambda>xs. xs \<noteq> []) xss) = concat xss"
  by (induction xss) auto

lemma list_all_hd: "list_all P xs \<Longrightarrow> xs \<noteq> [] \<Longrightarrow> P (hd xs)"
  by (cases xs) simp_all

section \<open>Queues as windows of a list\<close>

text \<open>
  A queue is the part of a growing list that its consumer has not taken yet:
  \<open>window xs k q\<close> says that \<open>q\<close> is what is left of \<open>xs\<close> after the first \<open>k\<close>
  elements.
\<close>

definition window :: "'a list \<Rightarrow> nat \<Rightarrow> 'a list \<Rightarrow> bool" where
  "window xs k q \<longleftrightarrow> k \<le> length xs \<and> q = drop k xs"

lemma window_push: "window xs k q \<Longrightarrow> window (xs @ ys) k (q @ ys)"
  by (simp add: window_def)

lemma window_pop: "window xs k (v # q) \<Longrightarrow> window xs (Suc k) q"
  by (metis window_def Cons_nth_drop_Suc Suc_leI drop_all list.discI list.inject not_le)

lemma window_take_pop: "window xs k (v # q) \<Longrightarrow> take (Suc k) xs = take k xs @ [v]"
  by (metis window_def Cons_nth_drop_Suc drop_all list.discI list.inject not_le
      take_Suc_conv_app_nth)

lemma window_take_push: "window xs k q \<Longrightarrow> take k (xs @ ys) = take k xs"
  by (simp add: window_def)

lemma window_empty: "window xs k [] \<Longrightarrow> take k xs = xs"
  by (simp add: window_def)

lemma window_length: "window xs k q \<Longrightarrow> length xs = k + length q"
  by (auto simp: window_def)

end
