(* ===== verification/Block_Source.thy ===== *)
theory Block_Source
  imports Chain_Prelude
begin

text \<open>
  The ledger as \<^verbatim>\<open>chain.go\<close> reads it. The types and operations of this theory
  belong to packages the file only calls (\<^verbatim>\<open>wire\<close>, \<^verbatim>\<open>btcutil\<close>, \<^verbatim>\<open>blockchain\<close>,
  \<^verbatim>\<open>txscript\<close>); they are modelled from their contract, with exactly the fields
  and results that \<^verbatim>\<open>chain.go\<close> uses:
  \<^item> outpoints, transaction inputs and outputs, transactions and blocks;
  \<^item> the unspent-output view (\<^verbatim>\<open>NewUtxoViewpoint\<close>, \<^verbatim>\<open>AddTxOuts\<close>, \<^verbatim>\<open>LookupEntry\<close>);
  \<^item> the claim-script decoder's result (\<^verbatim>\<open>DecodeClaimScript\<close>) and opcodes;
  \<^item> the block source (\<^verbatim>\<open>BlockByHeight\<close>, \<^verbatim>\<open>BestSnapshot().Height\<close>).
\<close>

section \<open>Wire data\<close>

type_synonym hash = bytes

definition HashSize :: nat where
  "HashSize = 32"

definition zeroHash :: hash where
  "zeroHash = replicate HashSize 0"

record outpoint =
  Hash :: hash
  Index :: uint32

record tx_out =
  Value :: int64
  PkScript :: bytes

record tx_in =
  PreviousOutPoint :: outpoint

text \<open>
  A \<^verbatim>\<open>btcutil.Tx\<close> with its cached hash (\<^verbatim>\<open>tx.Hash()\<close>) and the inputs and
  outputs of its \<^verbatim>\<open>MsgTx()\<close>; a \<^verbatim>\<open>btcutil.Block\<close> with its height, its
  transactions and the claim-trie commitment of its header.
\<close>

record tx =
  txHash :: hash
  TxIn :: "tx_in list"
  TxOut :: "tx_out list"

record block =
  blockHeight :: int32
  Transactions :: "tx list"
  headerClaimTrie :: hash

definition NewOutPoint :: "hash \<Rightarrow> uint32 \<Rightarrow> outpoint" where
  "NewOutPoint h i = \<lparr>Hash = h, Index = i\<rparr>"

text \<open>
  A coinbase transaction has exactly one input, whose previous outpoint is the
  zero hash with the maximal index.
\<close>

definition IsCoinBase :: "tx \<Rightarrow> bool" where
  "IsCoinBase t =
     (case TxIn t of
        [i] \<Rightarrow> Index (PreviousOutPoint i) = MaxUint32 \<and> Hash (PreviousOutPoint i) = zeroHash
      | _ \<Rightarrow> False)"

section \<open>The unspent-output view\<close>

text \<open>
  The view maps an outpoint to its entry; \<^verbatim>\<open>chain.go\<close> reads only the entry's
  \<^verbatim>\<open>PkScript()\<close>, so an entry is its script. \<^verbatim>\<open>LookupEntry\<close> returns \<^verbatim>\<open>nil\<close>
  (here \<open>None\<close>) for an outpoint the view does not hold. \<^verbatim>\<open>AddTxOuts\<close> registers
  every output of a transaction under the transaction's hash and the output's
  position converted to \<open>uint32\<close>, overwriting an entry already there.
\<close>

type_synonym utxo_view = "outpoint \<rightharpoonup> bytes"

definition NewUtxoViewpoint :: utxo_view where
  "NewUtxoViewpoint = Map.empty"

definition LookupEntry :: "utxo_view \<Rightarrow> outpoint \<Rightarrow> bytes option" where
  "LookupEntry view op = view op"

fun addTxOut :: "hash \<Rightarrow> nat \<Rightarrow> tx_out list \<Rightarrow> utxo_view \<Rightarrow> utxo_view" where
  "addTxOut h i [] view = view"
| "addTxOut h i (txOut # rest) view =
     addTxOut h (Suc i) rest (view(NewOutPoint h (of_nat i) \<mapsto> PkScript txOut))"

definition AddTxOuts :: "tx \<Rightarrow> utxo_view \<Rightarrow> utxo_view" where
  "AddTxOuts t view = addTxOut (txHash t) 0 (TxOut t) view"

lemma addTxOut_append:
  "addTxOut h i (outs @ outs') view = addTxOut h (i + length outs) outs' (addTxOut h i outs view)"
  by (induction outs arbitrary: i view) auto

lemma addTxOut_snoc:
  "addTxOut h i (outs @ [txOut]) view =
     (addTxOut h i outs view)(NewOutPoint h (of_nat (i + length outs)) \<mapsto> PkScript txOut)"
  by (simp add: addTxOut_append)

lemma addTxOut_other:
  "Hash op \<noteq> h \<Longrightarrow> addTxOut h i outs view op = view op"
  by (induction outs arbitrary: i view) (auto simp: NewOutPoint_def)

lemma addTxOut_dom:
  "dom (addTxOut h i outs view) =
     dom view \<union> {NewOutPoint h (of_nat k) |k. i \<le> k \<and> k < i + length outs}"
proof (induction outs arbitrary: i view)
  case Nil
  then show ?case by auto
next
  case (Cons txOut rest)
  let ?k = "NewOutPoint h (of_nat i)"
  let ?later = "{NewOutPoint h (of_nat k) |k. Suc i \<le> k \<and> k < Suc i + length rest}"
  have split: "{NewOutPoint h (of_nat k) |k. i \<le> k \<and> k < i + length (txOut # rest)} =
               insert ?k ?later"
    by (auto simp: Suc_le_eq le_less)
  have "dom (addTxOut h (Suc i) rest (view(?k \<mapsto> PkScript txOut))) =
        dom (view(?k \<mapsto> PkScript txOut)) \<union> ?later"
    by (rule Cons.IH)
  then have "dom (addTxOut h i (txOut # rest) view) = dom view \<union> insert ?k ?later"
    by simp
  then show ?case by (simp only: split)
qed

lemma addTxOut_mono: "view op \<noteq> None \<Longrightarrow> addTxOut h i outs view op \<noteq> None"
  using addTxOut_dom [of h i outs view] by (auto simp: dom_def)

text \<open>
  Below \<open>2\<^sup>3\<^sup>2\<close> outputs the conversion \<^verbatim>\<open>uint32(i)\<close> loses nothing, and the entry
  of output \<open>k\<close> is that output's script.
\<close>

lemma addTxOut_lookup:
  "k < length outs \<Longrightarrow> i + length outs \<le> 2 ^ 32 \<Longrightarrow>
     addTxOut h i outs view (NewOutPoint h (of_nat (i + k))) = Some (PkScript (outs ! k))"
proof (induction outs arbitrary: k rule: rev_induct)
  case Nil
  then show ?case by simp
next
  case (snoc txOut outs)
  show ?case
  proof (cases "k = length outs")
    case True
    then show ?thesis by (simp add: addTxOut_snoc)
  next
    case False
    with snoc.prems have k: "k < length outs" and "i + k < 2 ^ 32" "i + length outs < 2 ^ 32"
      by auto
    then have "(of_nat (i + k) :: uint32) \<noteq> of_nat (i + length outs)"
      by (simp add: of_nat_uint32_eq_iff)
    with snoc k show ?thesis
      by (simp add: addTxOut_snoc NewOutPoint_def nth_append)
  qed
qed

lemma AddTxOuts_lookup:
  "k < length (TxOut t) \<Longrightarrow> length (TxOut t) \<le> 2 ^ 32 \<Longrightarrow>
     LookupEntry (AddTxOuts t view) (NewOutPoint (txHash t) (of_nat k)) =
       Some (PkScript (TxOut t ! k))"
  using addTxOut_lookup [of k "TxOut t" 0] by (simp add: AddTxOuts_def LookupEntry_def)

lemma AddTxOuts_other:
  "Hash op \<noteq> txHash t \<Longrightarrow> LookupEntry (AddTxOuts t view) op = LookupEntry view op"
  by (simp add: AddTxOuts_def LookupEntry_def addTxOut_other)

lemma AddTxOuts_mono:
  "LookupEntry view op \<noteq> None \<Longrightarrow> LookupEntry (AddTxOuts t view) op \<noteq> None"
  by (simp add: AddTxOuts_def LookupEntry_def addTxOut_mono)

section \<open>Claim scripts\<close>

text \<open>
  \<^verbatim>\<open>txscript.DecodeClaimScript\<close> either reports \<^verbatim>\<open>ErrNotClaimScript\<close> (the script
  is not claim-related), or another error (claim-shaped but malformed; the
  returned script pointer is \<^verbatim>\<open>nil\<close>), or returns a claim script with its
  opcode, name and embedded claim id. The decoder itself is outside
  \<^verbatim>\<open>chain.go\<close>; the extractor takes it as a parameter.
\<close>

definition OP_CLAIMNAME :: byte where
  "OP_CLAIMNAME = 0xb5"

definition OP_SUPPORTCLAIM :: byte where
  "OP_SUPPORTCLAIM = 0xb6"

definition OP_UPDATECLAIM :: byte where
  "OP_UPDATECLAIM = 0xb7"

lemmas opcode_defs = OP_CLAIMNAME_def OP_SUPPORTCLAIM_def OP_UPDATECLAIM_def

record claim_script =
  csOpcode :: byte
  csName :: bytes
  csClaimID :: bytes

datatype decoded = ErrNotClaimScript | ErrInvalidClaimScript | Decoded claim_script

section \<open>The block source\<close>

text \<open>
  \<^verbatim>\<open>chain.BlockByHeight\<close> returns the block of the main chain at a height or an
  error (\<open>None\<close>); \<^verbatim>\<open>chain.BestSnapshot().Height\<close> is the height of the tip.
  A chain is well-formed when every height from 0 to the tip has a block and
  that block carries the height it is stored under.
\<close>

record chain =
  bestHeight :: int32
  blockAt :: "int32 \<Rightarrow> block option"

definition BlockByHeight :: "chain \<Rightarrow> int32 \<Rightarrow> block option" where
  "BlockByHeight c h = blockAt c h"

definition wf_chain :: "chain \<Rightarrow> bool" where
  "wf_chain c \<longleftrightarrow>
     0 \<le>s bestHeight c \<and>
     (\<forall>h. 0 \<le>s h \<and> h \<le>s bestHeight c \<longrightarrow>
        (\<exists>b. BlockByHeight c h = Some b \<and> blockHeight b = h))"

end
