(* ===== verification/Change.thy ===== *)
theory Change
  imports Block_Source
begin

text \<open>
  The change record of package \<^verbatim>\<open>change\<close>: the unit the converter writes and
  the replay engine reads. \<^verbatim>\<open>chain.go\<close> builds changes field by field and
  switches on their type; the record and the type's values are modelled from
  that use. Also here: the two functions the extractor calls but does not
  define (\<^verbatim>\<open>txscript.DecodeClaimScript\<close>, \<^verbatim>\<open>change.NewClaimID\<close>), as a record
  of parameters with the contract the extractor relies on.
\<close>

section \<open>Change records\<close>

text \<open>
  \<^verbatim>\<open>ChangeType\<close> is an integer type with five named values, \<^verbatim>\<open>AddClaim\<close> being
  the zero value; \<open>OtherType\<close> stands for every integer that is none of the
  five, which a corrupted change log can hold.
\<close>

datatype change_type =
  AddClaim | SpendClaim | UpdateClaim | AddSupport | SpendSupport | OtherType

type_synonym claim_id = bytes

definition ClaimIDSize :: nat where
  "ClaimIDSize = 20"

definition zeroClaimID :: claim_id where
  "zeroClaimID = replicate ClaimIDSize 0"

record change =
  Type :: change_type
  Height :: int32
  Name :: bytes
  ClaimID :: claim_id
  OutPoint :: outpoint
  Amount :: int64

definition is_spend :: "change \<Rightarrow> bool" where
  "is_spend c \<longleftrightarrow> Type c = SpendClaim \<or> Type c = SpendSupport"

definition is_create :: "change \<Rightarrow> bool" where
  "is_create c \<longleftrightarrow> Type c = AddClaim \<or> Type c = UpdateClaim \<or> Type c = AddSupport"

lemma spend_not_create: "is_spend c \<Longrightarrow> \<not> is_create c"
  by (auto simp: is_spend_def is_create_def)

text \<open>
  A well-formed change of a batch for height \<open>ht\<close>: it carries that height, its
  claim id has the fixed width, its type is one of the five, and it is a spend
  with no amount or a creation.
\<close>

definition wf_change :: "int32 \<Rightarrow> change \<Rightarrow> bool" where
  "wf_change ht c \<longleftrightarrow>
     Height c = ht \<and> length (ClaimID c) = ClaimIDSize \<and> Type c \<noteq> OtherType \<and>
     (if is_spend c then Amount c = 0 else is_create c)"

section \<open>External functions of the extractor\<close>

record codec =
  DecodeClaimScript :: "bytes \<Rightarrow> decoded"
  NewClaimID :: "outpoint \<Rightarrow> claim_id"

text \<open>
  The contract: a decoded script carries one of the three claim opcodes, and a
  derived claim id has the fixed width.
\<close>

definition claim_opcode :: "byte \<Rightarrow> bool" where
  "claim_opcode op \<longleftrightarrow> op = OP_CLAIMNAME \<or> op = OP_SUPPORTCLAIM \<or> op = OP_UPDATECLAIM"

definition wf_codec :: "codec \<Rightarrow> bool" where
  "wf_codec x \<longleftrightarrow>
     (\<forall>s cs. DecodeClaimScript x s = Decoded cs \<longrightarrow> claim_opcode (csOpcode cs)) \<and>
     (\<forall>op. length (NewClaimID x op) = ClaimIDSize)"

lemma wf_codec_opcode:
  "wf_codec x \<Longrightarrow> DecodeClaimScript x s = Decoded cs \<Longrightarrow> claim_opcode (csOpcode cs)"
  by (auto simp: wf_codec_def)

lemma wf_codec_NewClaimID [simp]: "wf_codec x \<Longrightarrow> length (NewClaimID x op) = ClaimIDSize"
  by (simp add: wf_codec_def)

end
