(* ===== verification/Chain_Repo.thy ===== *)
theory Chain_Repo
  imports Change
begin

text \<open>
  The change log store (package \<^verbatim>\<open>chainrepo\<close>), from its contract: a durable map
  from block height to the batch of that height. \<^verbatim>\<open>Save\<close> creates or overwrites
  the batch of a height; \<^verbatim>\<open>Load\<close> returns the batch, or the distinguished
  not-found error when none was saved, or another error. Input/output failure
  is a property of the store: the heights at which loading or saving fails are
  part of its state, so that every run of the model is determined.
\<close>

datatype repo_error = ErrNotFound | ErrIO

record repo =
  batches :: "int32 \<rightharpoonup> change list"
  loadFails :: "int32 \<Rightarrow> bool"
  saveFails :: "int32 \<Rightarrow> bool"

definition Load :: "repo \<Rightarrow> int32 \<Rightarrow> repo_error + change list" where
  "Load r h =
     (if loadFails r h then Inl ErrIO
      else case batches r h of None \<Rightarrow> Inl ErrNotFound | Some changes \<Rightarrow> Inr changes)"

definition Save :: "repo \<Rightarrow> int32 \<Rightarrow> change list \<Rightarrow> repo_error + repo" where
  "Save r h changes =
     (if saveFails r h then Inl ErrIO
      else Inr (r\<lparr>batches := (batches r)(h \<mapsto> changes)\<rparr>))"

definition empty_repo :: repo where
  "empty_repo = \<lparr>batches = Map.empty, loadFails = (\<lambda>_. False), saveFails = (\<lambda>_. False)\<rparr>"

definition sound_repo :: "repo \<Rightarrow> bool" where
  "sound_repo r \<longleftrightarrow> (\<forall>h. \<not> loadFails r h \<and> \<not> saveFails r h)"

text \<open>
  What a store holds at a height, read as a batch (nothing when no batch was
  saved), and the typing of a store: every batch is non-empty and each of its
  changes is well-formed for the height the batch is stored under.
\<close>

definition stored :: "repo \<Rightarrow> int32 \<Rightarrow> change list" where
  "stored r h = (case batches r h of None \<Rightarrow> [] | Some changes \<Rightarrow> changes)"

definition typed_batch :: "int32 \<Rightarrow> change list \<Rightarrow> bool" where
  "typed_batch h changes \<longleftrightarrow> changes \<noteq> [] \<and> list_all (wf_change h) changes"

definition typed_repo :: "repo \<Rightarrow> bool" where
  "typed_repo r \<longleftrightarrow> (\<forall>h changes. batches r h = Some changes \<longrightarrow> typed_batch h changes)"

lemma Load_Save_same:
  "Save r h changes = Inr r' \<Longrightarrow> \<not> loadFails r h \<Longrightarrow> Load r' h = Inr changes"
  by (auto simp: Save_def Load_def split: if_splits)

lemma Load_Save_other:
  "Save r h changes = Inr r' \<Longrightarrow> h' \<noteq> h \<Longrightarrow> Load r' h' = Load r h'"
  by (auto simp: Save_def Load_def split: if_splits)

lemma Save_frame:
  "Save r h changes = Inr r' \<Longrightarrow> loadFails r' = loadFails r \<and> saveFails r' = saveFails r"
  by (auto simp: Save_def split: if_splits)

lemma Load_empty [simp]: "Load empty_repo h = Inl ErrNotFound"
  by (simp add: Load_def empty_repo_def)

lemma Load_NotFound_iff: "Load r h = Inl ErrNotFound \<longleftrightarrow> \<not> loadFails r h \<and> batches r h = None"
  by (auto simp: Load_def split: option.splits)

lemma Load_stored:
  "\<not> loadFails r h \<Longrightarrow>
   Load r h = (if batches r h = None then Inl ErrNotFound else Inr (stored r h))"
  by (auto simp: Load_def stored_def)

lemma typed_repo_empty [simp]: "typed_repo empty_repo"
  by (simp add: typed_repo_def empty_repo_def)

lemma typed_repo_Save:
  "typed_repo r \<Longrightarrow> typed_batch h changes \<Longrightarrow> Save r h changes = Inr r' \<Longrightarrow> typed_repo r'"
  by (auto simp: typed_repo_def Save_def split: if_splits)

lemma typed_repo_stored: "typed_repo r \<Longrightarrow> list_all (wf_change h) (stored r h)"
  by (auto simp: typed_repo_def typed_batch_def stored_def split: option.splits)

end
