(* ===== verification/Claim_Trie.thy ===== *)
theory Claim_Trie
  imports Change
begin

text \<open>
  The claim trie (package \<^verbatim>\<open>claimtrie\<close>) as the replay engine sees it: a state
  of some type \<open>'ct\<close> and the eight operations \<^verbatim>\<open>chain.go\<close> calls, collected in
  a record so that the engine is stated once for every implementation. The
  argument order of each operation is the one of the call in \<^verbatim>\<open>chain.go\<close>.
  An operation that returns an error is \<open>Inl\<close> of its message.
\<close>

type_synonym trie_error = string

record 'ct trie_ops =
  ctAddClaim :: "bytes \<Rightarrow> outpoint \<Rightarrow> claim_id \<Rightarrow> int64 \<Rightarrow> 'ct \<Rightarrow> trie_error + 'ct"
  ctUpdateClaim :: "bytes \<Rightarrow> outpoint \<Rightarrow> int64 \<Rightarrow> claim_id \<Rightarrow> 'ct \<Rightarrow> trie_error + 'ct"
  ctSpendClaim :: "bytes \<Rightarrow> outpoint \<Rightarrow> claim_id \<Rightarrow> 'ct \<Rightarrow> trie_error + 'ct"
  ctAddSupport :: "bytes \<Rightarrow> outpoint \<Rightarrow> int64 \<Rightarrow> claim_id \<Rightarrow> 'ct \<Rightarrow> trie_error + 'ct"
  ctSpendSupport :: "bytes \<Rightarrow> outpoint \<Rightarrow> claim_id \<Rightarrow> 'ct \<Rightarrow> trie_error + 'ct"
  ctAppendBlock :: "'ct \<Rightarrow> trie_error + 'ct"
  ctHeight :: "'ct \<Rightarrow> int32"
  ctMerkleHash :: "'ct \<Rightarrow> hash"

text \<open>
  The contract the engine's theorems assume: committing a block raises the
  height by one, and the five change operations leave the height alone.
\<close>

definition wf_trie :: "'ct trie_ops \<Rightarrow> bool" where
  "wf_trie ops \<longleftrightarrow>
     (\<forall>ct ct'. ctAppendBlock ops ct = Inr ct' \<longrightarrow> ctHeight ops ct' = ctHeight ops ct + 1) \<and>
     (\<forall>n op cid a ct ct'. ctAddClaim ops n op cid a ct = Inr ct' \<longrightarrow>
        ctHeight ops ct' = ctHeight ops ct) \<and>
     (\<forall>n op a cid ct ct'. ctUpdateClaim ops n op a cid ct = Inr ct' \<longrightarrow>
        ctHeight ops ct' = ctHeight ops ct) \<and>
     (\<forall>n op cid ct ct'. ctSpendClaim ops n op cid ct = Inr ct' \<longrightarrow>
        ctHeight ops ct' = ctHeight ops ct) \<and>
     (\<forall>n op a cid ct ct'. ctAddSupport ops n op a cid ct = Inr ct' \<longrightarrow>
        ctHeight ops ct' = ctHeight ops ct) \<and>
     (\<forall>n op cid ct ct'. ctSpendSupport ops n op cid ct = Inr ct' \<longrightarrow>
        ctHeight ops ct' = ctHeight ops ct)"

lemma wf_trie_AppendBlock:
  "wf_trie ops \<Longrightarrow> ctAppendBlock ops ct = Inr ct' \<Longrightarrow> ctHeight ops ct' = ctHeight ops ct + 1"
  by (simp add: wf_trie_def)

lemma wf_trie_changes:
  assumes "wf_trie ops"
  shows "ctAddClaim ops n op cid a ct = Inr ct' \<Longrightarrow> ctHeight ops ct' = ctHeight ops ct"
    and "ctUpdateClaim ops n op a cid ct = Inr ct' \<Longrightarrow> ctHeight ops ct' = ctHeight ops ct"
    and "ctSpendClaim ops n op cid ct = Inr ct' \<Longrightarrow> ctHeight ops ct' = ctHeight ops ct"
    and "ctAddSupport ops n op a cid ct = Inr ct' \<Longrightarrow> ctHeight ops ct' = ctHeight ops ct"
    and "ctSpendSupport ops n op cid ct = Inr ct' \<Longrightarrow> ctHeight ops ct' = ctHeight ops ct"
  using assms by (simp_all add: wf_trie_def)

end
