(* ===== verification/Example_Ledger.thy ===== *)
theory Example_Ledger
  imports Chain_Repo Claim_Trie
begin

text \<open>
  A small concrete world for the closed instances of the theorems: a codec
  over a toy script format, an in-memory claim trie, and the three-block
  scenario of the specification (a claim on ``alice'', a competing claim and a
  support, a spend of the competing claim) with the change log it converts to.
  None of it models code; it only instantiates the model.
\<close>

section \<open>A toy codec\<close>

text \<open>
  A toy claim script is its opcode followed, for a support or an update, by the
  20 bytes of the claim id, followed by the name. A script that starts with a
  claim opcode and is too short is malformed; any other script is not a claim
  script. The toy claim id of an outpoint is its index byte followed by the
  first 19 bytes of its hash, zero-padded.
\<close>

fun toy_decode :: "bytes \<Rightarrow> decoded" where
  "toy_decode [] = ErrNotClaimScript"
| "toy_decode (op # rest) =
     (if op = OP_CLAIMNAME then
        (if rest = [] then ErrInvalidClaimScript
         else Decoded \<lparr>csOpcode = op, csName = rest, csClaimID = []\<rparr>)
      else if op = OP_SUPPORTCLAIM \<or> op = OP_UPDATECLAIM then
        (if length rest \<le> ClaimIDSize then ErrInvalidClaimScript
         else Decoded \<lparr>csOpcode = op, csName = drop ClaimIDSize rest,
                        csClaimID = take ClaimIDSize rest\<rparr>)
      else ErrNotClaimScript)"

definition toy_claim_id :: "outpoint \<Rightarrow> claim_id" where
  "toy_claim_id op = ucast (Index op) # take 19 (Hash op @ replicate 19 0)"

definition toy_codec :: codec where
  "toy_codec = \<lparr>DecodeClaimScript = toy_decode, NewClaimID = toy_claim_id\<rparr>"

lemma wf_toy_codec: "wf_codec toy_codec"
proof -
  have "claim_opcode (csOpcode cs)" if "toy_decode s = Decoded cs" for s cs
    using that by (cases s) (auto simp: claim_opcode_def split: if_splits)
  then show ?thesis
    by (auto simp: wf_codec_def toy_codec_def toy_claim_id_def ClaimIDSize_def)
qed

section \<open>A toy trie\<close>

text \<open>
  The toy trie keeps the unspent claims and supports with their amounts,
  refuses to spend what it does not hold, and on \<^verbatim>\<open>AppendBlock\<close> recomputes a three-byte digest (number of claims,
  number of supports, sum of the amounts).
\<close>

record toy_trie =
  tHeight :: int32
  tClaims :: "(outpoint \<times> int64) list"
  tSupports :: "(outpoint \<times> int64) list"
  tRoot :: hash

definition toy_digest :: "toy_trie \<Rightarrow> hash" where
  "toy_digest t =
     [of_nat (length (tClaims t)), of_nat (length (tSupports t)),
      ucast (sum_list (map snd (tClaims t)) + sum_list (map snd (tSupports t)))]"

definition toy_new :: toy_trie where
  "toy_new = \<lparr>tHeight = 0, tClaims = [], tSupports = [], tRoot = [0, 0, 0]\<rparr>"

definition toy_ops :: "toy_trie trie_ops" where
  "toy_ops = \<lparr>
     ctAddClaim = (\<lambda>n op cid a t. Inr (t\<lparr>tClaims := tClaims t @ [(op, a)]\<rparr>)),
     ctUpdateClaim = (\<lambda>n op a cid t. Inr (t\<lparr>tClaims := tClaims t @ [(op, a)]\<rparr>)),
     ctSpendClaim = (\<lambda>n op cid t.
        if op \<in> fst ` set (tClaims t)
        then Inr (t\<lparr>tClaims := filter (\<lambda>p. fst p \<noteq> op) (tClaims t)\<rparr>)
        else Inl ''no such claim''),
     ctAddSupport = (\<lambda>n op a cid t. Inr (t\<lparr>tSupports := tSupports t @ [(op, a)]\<rparr>)),
     ctSpendSupport = (\<lambda>n op cid t.
        if op \<in> fst ` set (tSupports t)
        then Inr (t\<lparr>tSupports := filter (\<lambda>p. fst p \<noteq> op) (tSupports t)\<rparr>)
        else Inl ''no such support''),
     ctAppendBlock = (\<lambda>t. Inr (t\<lparr>tHeight := tHeight t + 1, tRoot := toy_digest t\<rparr>)),
     ctHeight = tHeight,
     ctMerkleHash = tRoot\<rparr>"

lemma wf_toy_ops: "wf_trie toy_ops"
  by (auto simp: wf_trie_def toy_ops_def split: if_splits)

section \<open>The scenario\<close>

definition alice :: bytes where
  "alice = [0x61, 0x6c, 0x69, 0x63, 0x65]"

definition plain_script :: bytes where
  "plain_script = [0x76]"

definition coinbase_in :: tx_in where
  "coinbase_in = \<lparr>PreviousOutPoint = NewOutPoint zeroHash MaxUint32\<rparr>"

definition coinbase :: "byte \<Rightarrow> tx" where
  "coinbase n = \<lparr>txHash = [0xc0, n], TxIn = [coinbase_in],
                 TxOut = [\<lparr>Value = 50, PkScript = plain_script\<rparr>]\<rparr>"

definition tx1 :: tx where
  "tx1 = \<lparr>txHash = [1],
          TxIn = [\<lparr>PreviousOutPoint = NewOutPoint [0xc0, 0] 0\<rparr>],
          TxOut = [\<lparr>Value = 10, PkScript = OP_CLAIMNAME # alice\<rparr>]\<rparr>"

definition tx2 :: tx where
  "tx2 = \<lparr>txHash = [2],
          TxIn = [\<lparr>PreviousOutPoint = NewOutPoint [0xc0, 1] 0\<rparr>],
          TxOut = [\<lparr>Value = 5, PkScript = OP_CLAIMNAME # alice\<rparr>,
                   \<lparr>Value = 3,
                    PkScript = OP_SUPPORTCLAIM # toy_claim_id (NewOutPoint [1] 0) @ alice\<rparr>]\<rparr>"

definition tx3 :: tx where
  "tx3 = \<lparr>txHash = [3],
          TxIn = [\<lparr>PreviousOutPoint = NewOutPoint [2] 0\<rparr>],
          TxOut = [\<lparr>Value = 5, PkScript = plain_script\<rparr>]\<rparr>"

definition block0 :: block where
  "block0 = \<lparr>blockHeight = 0, Transactions = [coinbase 0], headerClaimTrie = [0, 0, 0]\<rparr>"

definition block1 :: block where
  "block1 = \<lparr>blockHeight = 1, Transactions = [coinbase 1, tx1], headerClaimTrie = [1, 0, 10]\<rparr>"

definition block2 :: block where
  "block2 = \<lparr>blockHeight = 2, Transactions = [coinbase 2, tx2], headerClaimTrie = [2, 1, 18]\<rparr>"

definition block3 :: block where
  "block3 = \<lparr>blockHeight = 3, Transactions = [coinbase 3, tx3], headerClaimTrie = [1, 1, 13]\<rparr>"

text \<open>
  The block source of the scenario, the same with one more block on top, the
  batches the three blocks convert to, and the change log that holds them.
\<close>

definition example_chain :: chain where
  "example_chain =
     \<lparr>bestHeight = 3, blockAt = [0 \<mapsto> block0, 1 \<mapsto> block1, 2 \<mapsto> block2, 3 \<mapsto> block3]\<rparr>"

definition block4 :: block where
  "block4 = \<lparr>blockHeight = 4, Transactions = [coinbase 4], headerClaimTrie = [1, 1, 13]\<rparr>"

definition longer_chain :: chain where
  "longer_chain =
     \<lparr>bestHeight = 4,
      blockAt = [0 \<mapsto> block0, 1 \<mapsto> block1, 2 \<mapsto> block2, 3 \<mapsto> block3, 4 \<mapsto> block4]\<rparr>"

definition batch1 :: "change list" where
  "batch1 = [\<lparr>Type = AddClaim, Height = 1, Name = alice,
              ClaimID = toy_claim_id (NewOutPoint [1] 0),
              OutPoint = NewOutPoint [1] 0, Amount = 10\<rparr>]"

definition batch2 :: "change list" where
  "batch2 = [\<lparr>Type = AddClaim, Height = 2, Name = alice,
              ClaimID = toy_claim_id (NewOutPoint [2] 0),
              OutPoint = NewOutPoint [2] 0, Amount = 5\<rparr>,
             \<lparr>Type = AddSupport, Height = 2, Name = alice,
              ClaimID = toy_claim_id (NewOutPoint [1] 0),
              OutPoint = NewOutPoint [2] 1, Amount = 3\<rparr>]"

definition batch3 :: "change list" where
  "batch3 = [\<lparr>Type = SpendClaim, Height = 3, Name = alice,
              ClaimID = toy_claim_id (NewOutPoint [2] 0),
              OutPoint = NewOutPoint [2] 0, Amount = 0\<rparr>]"

definition example_repo :: repo where
  "example_repo = empty_repo\<lparr>batches := [1 \<mapsto> batch1, 2 \<mapsto> batch2, 3 \<mapsto> batch3]\<rparr>"

text \<open>
  A change log in which the amount of the competing claim was altered, and a
  batch that holds a change of no known type.
\<close>

definition tampered_repo :: repo where
  "tampered_repo =
     example_repo\<lparr>batches := (batches example_repo)(2 \<mapsto> [hd batch2\<lparr>Amount := 6\<rparr>, batch2 ! 1])\<rparr>"

definition corrupt_batch :: "change list" where
  "corrupt_batch = [hd batch1, hd batch1\<lparr>Type := OtherType\<rparr>, hd batch3]"

text \<open>
  A trie one block below a multiple of 1000, and a block source that knows the
  block above it.
\<close>

definition tall_trie :: toy_trie where
  "tall_trie = toy_new\<lparr>tHeight := 999\<rparr>"

definition tall_chain :: chain where
  "tall_chain =
     \<lparr>bestHeight = 1000,
      blockAt = [1000 \<mapsto> \<lparr>blockHeight = 1000, Transactions = [],
                             headerClaimTrie = [0, 0, 0]\<rparr>]\<rparr>"

text \<open>
  Two more transactions: \<open>tx4\<close> spends the competing claim of \<open>tx2\<close> and claims the
  name again; \<open>tx5\<close> names its own first output as its input.
\<close>

definition tx4 :: tx where
  "tx4 = \<lparr>txHash = [4],
          TxIn = [\<lparr>PreviousOutPoint = NewOutPoint [2] 0\<rparr>],
          TxOut = [\<lparr>Value = 7, PkScript = OP_CLAIMNAME # alice\<rparr>]\<rparr>"

definition tx5 :: tx where
  "tx5 = \<lparr>txHash = [5],
          TxIn = [\<lparr>PreviousOutPoint = NewOutPoint [5] 0\<rparr>],
          TxOut = [\<lparr>Value = 7, PkScript = OP_CLAIMNAME # alice\<rparr>]\<rparr>"

text \<open>The view after block 0, and a view that holds only the outputs of \<open>tx2\<close>.\<close>

definition view0 :: utxo_view where
  "view0 = AddTxOuts (coinbase 0) NewUtxoViewpoint"

definition view2 :: utxo_view where
  "view2 = AddTxOuts tx2 NewUtxoViewpoint"

lemmas scenario_defs =
  alice_def plain_script_def coinbase_in_def coinbase_def tx1_def tx2_def tx3_def
  tx4_def tx5_def view0_def view2_def
  block0_def block1_def block2_def block3_def block4_def toy_codec_def toy_claim_id_def

lemmas replay_scenario_defs =
  example_chain_def longer_chain_def example_repo_def tampered_repo_def corrupt_batch_def
  tall_trie_def tall_chain_def batch1_def batch2_def batch3_def empty_repo_def
  toy_ops_def toy_new_def toy_digest_def alice_def toy_claim_id_def NewOutPoint_def
  block0_def block1_def block2_def block3_def block4_def BlockByHeight_def

lemmas ledger_defs =
  AddTxOuts_def LookupEntry_def NewOutPoint_def IsCoinBase_def zeroHash_def HashSize_def
  MaxUint32_def opcode_defs ClaimIDSize_def NewUtxoViewpoint_def zeroClaimID_def

end
