(* ===== verification/Replay.thy ===== *)
theory Replay
  imports Example_Ledger
begin

text \<open>
  The replay engine: the loop of the \<^verbatim>\<open>replay\<close> command (\<^verbatim>\<open>chain.go\<close>, lines 138
  to 176) and \<^verbatim>\<open>appendBlock\<close> (lines 190 to 208). For every height of the range
  the engine loads the batch stored one height above, applies its changes to
  the claim trie in the stored order, commits a block and compares the trie's
  Merkle hash with the one in the header of the block at the trie's height.
  Every \<^verbatim>\<open>return errors.Wrapf\<close> of the source is a value of \<open>replay_error\<close>.
  The command around the loop (lines 97 to 136) is \<open>replay_command\<close>.
\<close>

section \<open>Errors and state\<close>

datatype change_error = TrieFailed trie_error | InvalidChangeType

datatype append_error =
  AppendFailed trie_error
  | LoadBlockFailed int32
  | HashMismatched int32 hash hash

datatype replay_error =
  LoadChangesFailed int32 repo_error
  | ExecuteChangeFailed change change_error
  | AppendBlockFailed append_error

text \<open>
  The state of the loop: the trie, and the heights printed by the progress
  line so far.
\<close>

record 'ct replay_state =
  trie :: 'ct
  progress :: "int32 list"

section \<open>The operations\<close>

definition trie_result :: "trie_error + 'ct \<Rightarrow> change_error + 'ct" where
  "trie_result res = (case res of Inl e \<Rightarrow> Inl (TrieFailed e) | Inr ct \<Rightarrow> Inr ct)"

definition apply_change :: "'ct trie_ops \<Rightarrow> change \<Rightarrow> 'ct \<Rightarrow> change_error + 'ct" where
  "apply_change ops chg ct =
     (case Type chg of
        AddClaim \<Rightarrow>
          trie_result (ctAddClaim ops (Name chg) (OutPoint chg) (ClaimID chg) (Amount chg) ct)
      | UpdateClaim \<Rightarrow>
          trie_result (ctUpdateClaim ops (Name chg) (OutPoint chg) (Amount chg) (ClaimID chg) ct)
      | SpendClaim \<Rightarrow>
          trie_result (ctSpendClaim ops (Name chg) (OutPoint chg) (ClaimID chg) ct)
      | AddSupport \<Rightarrow>
          trie_result (ctAddSupport ops (Name chg) (OutPoint chg) (Amount chg) (ClaimID chg) ct)
      | SpendSupport \<Rightarrow>
          trie_result (ctSpendSupport ops (Name chg) (OutPoint chg) (ClaimID chg) ct)
      | OtherType \<Rightarrow> Inl InvalidChangeType)"

fun apply_changes :: "'ct trie_ops \<Rightarrow> change list \<Rightarrow> 'ct \<Rightarrow> replay_error + 'ct" where
  "apply_changes ops [] ct = Inr ct"
| "apply_changes ops (chg # changes) ct =
     (case apply_change ops chg ct of
        Inl e \<Rightarrow> Inl (ExecuteChangeFailed chg e)
      | Inr ct' \<Rightarrow> apply_changes ops changes ct')"

definition appendBlock :: "'ct trie_ops \<Rightarrow> chain \<Rightarrow> 'ct \<Rightarrow> append_error + 'ct" where
  "appendBlock ops c ct =
     (case ctAppendBlock ops ct of
        Inl e \<Rightarrow> Inl (AppendFailed e)
      | Inr ct' \<Rightarrow>
          (case BlockByHeight c (ctHeight ops ct') of
             None \<Rightarrow> Inl (LoadBlockFailed (ctHeight ops ct'))
           | Some b \<Rightarrow>
               (let hash = headerClaimTrie b in
                if ctMerkleHash ops ct' \<noteq> hash
                then Inl (HashMismatched (ctHeight ops ct') hash (ctMerkleHash ops ct'))
                else Inr ct')))"

definition load_changes :: "repo \<Rightarrow> int32 \<Rightarrow> replay_error + change list" where
  "load_changes r ht =
     (case Load r (ht + 1) of
        Inl ErrNotFound \<Rightarrow> Inr []
      | Inl e \<Rightarrow> Inl (LoadChangesFailed ht e)
      | Inr changes \<Rightarrow> Inr changes)"

definition report_progress :: "'ct trie_ops \<Rightarrow> 'ct \<Rightarrow> int32 list \<Rightarrow> int32 list" where
  "report_progress ops ct out =
     (if sint (ctHeight ops ct) smod 1000 = 0 then out @ [ctHeight ops ct] else out)"

definition replay_step ::
  "'ct trie_ops \<Rightarrow> repo \<Rightarrow> chain \<Rightarrow> int32 \<Rightarrow> 'ct replay_state \<Rightarrow> replay_error + 'ct replay_state"
where
  "replay_step ops r c ht st =
     (case load_changes r ht of
        Inl e \<Rightarrow> Inl e
      | Inr changes \<Rightarrow>
          (case apply_changes ops changes (trie st) of
             Inl e \<Rightarrow> Inl e
           | Inr ct \<Rightarrow>
               (case appendBlock ops c ct of
                  Inl e \<Rightarrow> Inl (AppendBlockFailed e)
                | Inr ct' \<Rightarrow>
                    Inr \<lparr>trie = ct', progress = report_progress ops ct' (progress st)\<rparr>)))"

function replay_loop ::
  "'ct trie_ops \<Rightarrow> repo \<Rightarrow> chain \<Rightarrow> int32 \<Rightarrow> int32 \<Rightarrow> 'ct replay_state
     \<Rightarrow> replay_error + 'ct replay_state"
where
  "replay_loop ops r c ht toHeight st =
     (if ht <s toHeight then
        (case replay_step ops r c ht st of
           Inl e \<Rightarrow> Inl e
         | Inr st' \<Rightarrow> replay_loop ops r c (ht + 1) toHeight st')
      else Inr st)"
  by pat_completeness auto

termination replay_loop
proof (relation "measure (\<lambda>(ops, r, c, ht, toHeight, st). nat (sint toHeight - sint ht))")
  fix ops :: "'ct trie_ops" and r c and ht toHeight :: int32 and st st' :: "'ct replay_state"
  assume "ht <s toHeight"
  then show "((ops, r, c, ht + 1, toHeight, st'), ops, r, c, ht, toHeight, st)
      \<in> measure (\<lambda>(ops, r, c, ht, toHeight, st). nat (sint toHeight - sint ht))"
    using sless_measure [of ht toHeight] by simp
qed simp

declare replay_loop.simps [simp del]

definition replay :: "'ct trie_ops \<Rightarrow> repo \<Rightarrow> chain \<Rightarrow> int32 \<Rightarrow> int32 \<Rightarrow> 'ct
    \<Rightarrow> replay_error + 'ct replay_state" where
  "replay ops r c fromHeight toHeight ct =
     replay_loop ops r c fromHeight toHeight \<lparr>trie = ct, progress = []\<rparr>"

lemmas replay_step_defs [replay_defs] =
  trie_result_def apply_change_def appendBlock_def load_changes_def report_progress_def
  replay_step_def replay_def Load_def

section \<open>Reference definitions\<close>

text \<open>
  The loop over an explicit list of heights, and the predicate ``the trie's
  hash is the one the block at the trie's height commits to''.
\<close>

fun replay_over ::
  "'ct trie_ops \<Rightarrow> repo \<Rightarrow> chain \<Rightarrow> int32 list \<Rightarrow> 'ct replay_state
     \<Rightarrow> replay_error + 'ct replay_state"
where
  "replay_over ops r c [] st = Inr st"
| "replay_over ops r c (ht # hts) st =
     (case replay_step ops r c ht st of
        Inl e \<Rightarrow> Inl e
      | Inr st' \<Rightarrow> replay_over ops r c hts st')"

text \<open>
  The loop without the store: the batches to apply are given as a list, one
  per height, and each is applied, committed and verified as \<open>replay_step\<close>
  does.
\<close>

fun replay_batches ::
  "'ct trie_ops \<Rightarrow> chain \<Rightarrow> change list list \<Rightarrow> 'ct replay_state
     \<Rightarrow> replay_error + 'ct replay_state"
where
  "replay_batches ops c [] st = Inr st"
| "replay_batches ops c (changes # rest) st =
     (case apply_changes ops changes (trie st) of
        Inl e \<Rightarrow> Inl e
      | Inr ct \<Rightarrow>
          (case appendBlock ops c ct of
             Inl e \<Rightarrow> Inl (AppendBlockFailed e)
           | Inr ct' \<Rightarrow>
               replay_batches ops c rest
                 \<lparr>trie = ct', progress = report_progress ops ct' (progress st)\<rparr>))"

definition verified :: "'ct trie_ops \<Rightarrow> chain \<Rightarrow> 'ct \<Rightarrow> bool" where
  "verified ops c ct \<longleftrightarrow>
     (case BlockByHeight c (ctHeight ops ct) of
        None \<Rightarrow> False
      | Some b \<Rightarrow> ctMerkleHash ops ct = headerClaimTrie b)"

section \<open>Applying a batch\<close>

lemma apply_change_height:
  "wf_trie ops \<Longrightarrow> apply_change ops chg ct = Inr ct' \<Longrightarrow> ctHeight ops ct' = ctHeight ops ct"
  by (auto simp: apply_change_def trie_result_def dest: wf_trie_changes
      split: change_type.splits sum.splits)

lemma apply_change_invalid: "Type chg = OtherType \<Longrightarrow> apply_change ops chg ct = Inl InvalidChangeType"
  by (simp add: apply_change_def)

lemma apply_changes_append:
  "apply_changes ops (xs @ ys) ct =
     (case apply_changes ops xs ct of Inl e \<Rightarrow> Inl e | Inr ct' \<Rightarrow> apply_changes ops ys ct')"
  by (induction xs arbitrary: ct) (auto split: sum.splits)

lemma apply_changes_stops:
  "apply_changes ops pre ct = Inr ct1 \<Longrightarrow> apply_change ops chg ct1 = Inl e \<Longrightarrow>
   apply_changes ops (pre @ chg # post) ct = Inl (ExecuteChangeFailed chg e)"
  by (simp add: apply_changes_append)

lemma apply_changes_height:
  "wf_trie ops \<Longrightarrow> apply_changes ops changes ct = Inr ct' \<Longrightarrow> ctHeight ops ct' = ctHeight ops ct"
  by (induction changes arbitrary: ct) (auto split: sum.splits dest: apply_change_height)

section \<open>Committing a block\<close>

lemma appendBlock_Inr_iff:
  "appendBlock ops c ct = Inr ct' \<longleftrightarrow> ctAppendBlock ops ct = Inr ct' \<and> verified ops c ct'"
  by (auto simp: appendBlock_def verified_def Let_def split: sum.splits option.splits)

lemma appendBlock_mismatch:
  "ctAppendBlock ops ct = Inr ct' \<Longrightarrow> BlockByHeight c (ctHeight ops ct') = Some b \<Longrightarrow>
   ctMerkleHash ops ct' \<noteq> headerClaimTrie b \<Longrightarrow>
   appendBlock ops c ct =
     Inl (HashMismatched (ctHeight ops ct') (headerClaimTrie b) (ctMerkleHash ops ct'))"
  by (simp add: appendBlock_def)

lemma appendBlock_height:
  "wf_trie ops \<Longrightarrow> appendBlock ops c ct = Inr ct' \<Longrightarrow> ctHeight ops ct' = ctHeight ops ct + 1"
  by (auto simp: appendBlock_Inr_iff dest: wf_trie_AppendBlock)

section \<open>One height\<close>

lemma replay_step_Inr_iff:
  "replay_step ops r c ht st = Inr st' \<longleftrightarrow>
     (\<exists>changes ct ct'. load_changes r ht = Inr changes \<and>
        apply_changes ops changes (trie st) = Inr ct \<and>
        appendBlock ops c ct = Inr ct' \<and>
        st' = \<lparr>trie = ct', progress = report_progress ops ct' (progress st)\<rparr>)"
  by (auto simp: replay_step_def split: sum.splits)

lemma replay_step_verified:
  "replay_step ops r c ht st = Inr st' \<Longrightarrow> verified ops c (trie st')"
  by (auto simp: replay_step_Inr_iff appendBlock_Inr_iff)

lemma replay_step_height:
  assumes "wf_trie ops" and "replay_step ops r c ht st = Inr st'"
  shows "ctHeight ops (trie st') = ctHeight ops (trie st) + 1"
proof -
  from assms(2) obtain changes ct where
    "apply_changes ops changes (trie st) = Inr ct" "appendBlock ops c ct = Inr (trie st')"
    by (auto simp: replay_step_Inr_iff)
  with assms(1) show ?thesis
    using apply_changes_height [of ops changes "trie st" ct]
      appendBlock_height [of ops c ct "trie st'"] by simp
qed

lemma replay_step_cong:
  "Load r (ht + 1) = Load r' (ht + 1) \<Longrightarrow> replay_step ops r c ht st = replay_step ops r' c ht st"
  by (simp add: replay_step_def load_changes_def)

section \<open>The loop\<close>

lemma replay_loop_heights:
  "replay_loop ops r c a b st = replay_over ops r c (heights a b) st"
proof (induction ops r c a b st rule: replay_loop.induct)
  case (1 ops r c ht toHeight st)
  show ?case
  proof (cases "ht <s toHeight")
    case True
    with 1 show ?thesis
      by (subst replay_loop.simps) (simp add: heights_Cons split: sum.splits)
  next
    case False
    then show ?thesis by (subst replay_loop.simps) simp
  qed
qed

lemma replay_over_append:
  "replay_over ops r c (xs @ ys) st =
     (case replay_over ops r c xs st of Inl e \<Rightarrow> Inl e | Inr st' \<Rightarrow> replay_over ops r c ys st')"
  by (induction xs arbitrary: st) (auto split: sum.splits)

lemma replay_over_cong:
  "list_all (\<lambda>h. Load r (h + 1) = Load r' (h + 1)) hs \<Longrightarrow>
   replay_over ops r c hs st = replay_over ops r' c hs st"
proof (induction hs arbitrary: st)
  case (Cons h hs)
  then have "replay_step ops r c h st = replay_step ops r' c h st"
    by (simp add: replay_step_cong [of r h r'])
  with Cons show ?case by (simp split: sum.splits)
qed simp

lemma replay_over_height:
  "wf_trie ops \<Longrightarrow> replay_over ops r c hs st = Inr st' \<Longrightarrow>
   ctHeight ops (trie st') = ctHeight ops (trie st) + of_nat (length hs)"
proof (induction hs arbitrary: st)
  case (Cons h hs)
  from Cons.prems obtain st1 where
    1: "replay_step ops r c h st = Inr st1" and 2: "replay_over ops r c hs st1 = Inr st'"
    by (auto split: sum.splits)
  from Cons.IH [OF Cons.prems(1) 2] replay_step_height [OF Cons.prems(1) 1]
  show ?case by simp
qed simp

lemma replay_over_verified:
  "replay_over ops r c hs st = Inr st' \<Longrightarrow> hs \<noteq> [] \<Longrightarrow> verified ops c (trie st')"
proof (induction hs arbitrary: st rule: rev_induct)
  case (snoc h hs)
  then show ?case
    by (auto simp: replay_over_append split: sum.splits dest: replay_step_verified)
qed simp

section \<open>The loop over a store whose loads do not fail\<close>

lemma load_changes_stored: "\<not> loadFails r (ht + 1) \<Longrightarrow> load_changes r ht = Inr (stored r (ht + 1))"
  by (simp add: load_changes_def Load_def stored_def split: option.splits)

lemma replay_over_batches:
  "list_all (\<lambda>h. \<not> loadFails r (h + 1)) hs \<Longrightarrow>
   replay_over ops r c hs st = replay_batches ops c (map (\<lambda>h. stored r (h + 1)) hs) st"
  by (induction hs arbitrary: st)
    (simp_all add: replay_step_def load_changes_stored split: sum.splits)

section \<open>The default branch of the switch\<close>

text \<open>
  The invalid-change-type error arises only from a change of no known type,
  which a typed store does not hold.
\<close>

lemma apply_change_invalid_iff:
  "apply_change ops chg ct = Inl InvalidChangeType \<longleftrightarrow> Type chg = OtherType"
  by (auto simp: apply_change_def trie_result_def split: change_type.splits sum.splits)

lemma apply_changes_invalid:
  "apply_changes ops changes ct = Inl (ExecuteChangeFailed chg InvalidChangeType) \<Longrightarrow>
   chg \<in> set changes \<and> Type chg = OtherType"
  by (induction changes arbitrary: ct) (auto simp: apply_change_invalid_iff split: sum.splits)

lemma load_changes_Inl: "load_changes r ht = Inl e \<Longrightarrow> \<exists>re. e = LoadChangesFailed ht re"
  by (auto simp: load_changes_def split: sum.splits repo_error.splits)

lemma replay_step_invalid:
  assumes "replay_step ops r c ht st = Inl (ExecuteChangeFailed chg InvalidChangeType)"
  shows "\<exists>changes. batches r (ht + 1) = Some changes \<and> chg \<in> set changes \<and> Type chg = OtherType"
proof -
  from assms obtain changes where l: "load_changes r ht = Inr changes"
    and "apply_changes ops changes (trie st) = Inl (ExecuteChangeFailed chg InvalidChangeType)"
    by (auto simp: replay_step_def split: sum.splits dest: load_changes_Inl)
  then have c: "chg \<in> set changes" "Type chg = OtherType"
    by (auto dest: apply_changes_invalid)
  with l have "batches r (ht + 1) = Some changes"
    by (auto simp: load_changes_def Load_def split: if_splits option.splits)
  with c show ?thesis by blast
qed

lemma replay_over_typed:
  assumes "typed_repo r"
  shows "replay_over ops r c hs st \<noteq> Inl (ExecuteChangeFailed chg InvalidChangeType)"
proof (induction hs arbitrary: st)
  case (Cons h hs)
  have "replay_step ops r c h st \<noteq> Inl (ExecuteChangeFailed chg InvalidChangeType)"
    using assms replay_step_invalid [of ops r c h st chg]
    by (auto simp: typed_repo_def typed_batch_def wf_change_def list_all_iff)
  with Cons show ?case by (auto split: sum.splits)
qed simp

section \<open>The command\<close>

text \<open>
  The \<^verbatim>\<open>replay\<close> command around the loop (lines 97 to 136 and 178): it deletes
  the four repositories of derived state, opens the change log, creates a
  fresh trie, loads the block database and the chain, runs the loop, and
  closes the trie on every path once it exists (\<^verbatim>\<open>defer ct.Close()\<close>). What
  the file system and the packages answer is the \<open>world\<close>; what the command
  leaves is the list of repositories deleted, whether the trie was closed, and
  its result.
\<close>

datatype derived_repo = BlockRepo | NodeRepo | MerkleTrieRepo | TemporalRepo

datatype command_error =
  DeleteRepoFailed derived_repo
  | OpenChainRepoFailed
  | CreateClaimtrieFailed
  | LoadBlocksFailed
  | LoadChainFailed
  | ReplayFailed replay_error

record 'ct world =
  removeAll :: "derived_repo \<Rightarrow> bool"
  openChainRepo :: "repo option"
  newClaimTrie :: "'ct option"
  loadBlocksDB :: bool
  loadChain :: "chain option"

record 'ct outcome =
  deleted :: "derived_repo list"
  trieClosed :: bool
  result :: "command_error + 'ct replay_state"

definition derived_repos :: "derived_repo list" where
  "derived_repos = [BlockRepo, NodeRepo, MerkleTrieRepo, TemporalRepo]"

fun delete_repos ::
  "(derived_repo \<Rightarrow> bool) \<Rightarrow> derived_repo list \<Rightarrow> derived_repo list
     \<Rightarrow> derived_repo list \<times> derived_repo option" where
  "delete_repos ok [] gone = (gone, None)"
| "delete_repos ok (d # ds) gone =
     (if ok d then delete_repos ok ds (gone @ [d]) else (gone, Some d))"

definition replay_command ::
  "'ct trie_ops \<Rightarrow> 'ct world \<Rightarrow> int32 \<Rightarrow> int32 \<Rightarrow> 'ct outcome" where
  "replay_command ops w fromHeight toHeight =
     (case delete_repos (removeAll w) derived_repos [] of
        (gone, Some d) \<Rightarrow>
          \<lparr>deleted = gone, trieClosed = False, result = Inl (DeleteRepoFailed d)\<rparr>
      | (gone, None) \<Rightarrow>
          (case openChainRepo w of
             None \<Rightarrow> \<lparr>deleted = gone, trieClosed = False, result = Inl OpenChainRepoFailed\<rparr>
           | Some chainRepo \<Rightarrow>
               (case newClaimTrie w of
                  None \<Rightarrow>
                    \<lparr>deleted = gone, trieClosed = False, result = Inl CreateClaimtrieFailed\<rparr>
                | Some ct \<Rightarrow>
                    (if \<not> loadBlocksDB w
                     then \<lparr>deleted = gone, trieClosed = True, result = Inl LoadBlocksFailed\<rparr>
                     else case loadChain w of
                       None \<Rightarrow>
                         \<lparr>deleted = gone, trieClosed = True, result = Inl LoadChainFailed\<rparr>
                     | Some c \<Rightarrow>
                         \<lparr>deleted = gone, trieClosed = True,
                          result =
                            (case replay ops chainRepo c fromHeight toHeight ct of
                               Inl e \<Rightarrow> Inl (ReplayFailed e)
                             | Inr st \<Rightarrow> Inr st)\<rparr>))))"

lemma delete_repos_all:
  "list_all ok ds \<Longrightarrow> delete_repos ok ds gone = (gone @ ds, None)"
  by (induction ds arbitrary: gone) simp_all

lemma delete_repos_None_iff: "snd (delete_repos ok ds gone) = None \<longleftrightarrow> list_all ok ds"
  by (induction ds arbitrary: gone) simp_all

lemma replay_command_result:
  "replay_command ops w a b =
     (if \<not> list_all (removeAll w) derived_repos then
        \<lparr>deleted = fst (delete_repos (removeAll w) derived_repos []), trieClosed = False,
         result = Inl (DeleteRepoFailed (the (snd (delete_repos (removeAll w) derived_repos []))))\<rparr>
      else case openChainRepo w of
        None \<Rightarrow> \<lparr>deleted = derived_repos, trieClosed = False, result = Inl OpenChainRepoFailed\<rparr>
      | Some chainRepo \<Rightarrow>
          (case newClaimTrie w of
             None \<Rightarrow>
               \<lparr>deleted = derived_repos, trieClosed = False, result = Inl CreateClaimtrieFailed\<rparr>
           | Some ct \<Rightarrow>
               \<lparr>deleted = derived_repos, trieClosed = True,
                result =
                  (if \<not> loadBlocksDB w then Inl LoadBlocksFailed
                   else case loadChain w of
                     None \<Rightarrow> Inl LoadChainFailed
                   | Some c \<Rightarrow>
                       (case replay ops chainRepo c a b ct of
                          Inl e \<Rightarrow> Inl (ReplayFailed e)
                        | Inr st \<Rightarrow> Inr st))\<rparr>))"
proof (cases "list_all (removeAll w) derived_repos")
  case True
  then show ?thesis
    by (simp add: replay_command_def delete_repos_all split: option.splits)
next
  case False
  then obtain gone d where "delete_repos (removeAll w) derived_repos [] = (gone, Some d)"
    using delete_repos_None_iff [of "removeAll w" derived_repos "[]"]
    by (cases "delete_repos (removeAll w) derived_repos []") auto
  with False show ?thesis by (simp add: replay_command_def)
qed

definition example_world :: "toy_trie world" where
  "example_world =
     \<lparr>removeAll = (\<lambda>d. True), openChainRepo = Some example_repo, newClaimTrie = Some toy_new,
      loadBlocksDB = True, loadChain = Some example_chain\<rparr>"

section \<open>Evaluation rules\<close>

lemmas replay_eval = replay_loop.simps replay_defs replay_scenario_defs int32_eval

lemma report_progress_eq:
  "report_progress ops ct out = out @ filter (\<lambda>h. sint h smod 1000 = 0) [ctHeight ops ct]"
  by (simp add: report_progress_def)

lemma replay_over_progress:
  assumes "wf_trie ops" and "replay_over ops r c hs st = Inr st'"
  shows "progress st' = progress st @
     filter (\<lambda>h. sint h smod 1000 = 0)
       (map (\<lambda>i. ctHeight ops (trie st) + 1 + of_nat i) [0..<length hs])"
  using assms(2)
proof (induction hs arbitrary: st)
  case (Cons h hs)
  from Cons.prems obtain st1 where
    1: "replay_step ops r c h st = Inr st1" and 2: "replay_over ops r c hs st1 = Inr st'"
    by (auto split: sum.splits)
  from 1 have p: "progress st1 = report_progress ops (trie st1) (progress st)"
    by (auto simp: replay_step_Inr_iff)
  have h: "ctHeight ops (trie st1) = ctHeight ops (trie st) + 1"
    by (rule replay_step_height [OF assms(1) 1])
  from Cons.IH [OF 2] p h show ?case
    by (simp add: report_progress_eq map_upt_Suc add.assoc del: upt_Suc)
qed simp

section \<open>Properties\<close>

text \<open>
  C3: A replay that succeeds has verified every height on the way. For every
  \<open>m\<close> with \<open>a < m \<le> b\<close> the replay of the shorter range succeeds as well, and it
  ends in a trie whose Merkle hash is the one in the header of the block at
  the trie's height; that height is \<open>m - a\<close> blocks above the height of the trie
  the replay started with.
\<close>

theorem replay_verifies_every_height:
  assumes "wf_trie ops" and "replay ops r c a b ct = Inr st" and "a <s m" and "m \<le>s b"
  shows "\<exists>st1. replay ops r c a m ct = Inr st1 \<and> verified ops c (trie st1) \<and>
           ctHeight ops (trie st1) = ctHeight ops ct + (m - a)"
proof -
  from assms(3,4) have am: "a \<le>s m" and ne: "heights a m \<noteq> []"
    by (auto simp: word_sle_eq word_sless_alt heights_Cons)
  from assms(2) have "replay_over ops r c (heights a m @ heights m b) \<lparr>trie = ct, progress = []\<rparr> = Inr st"
    by (simp add: replay_def replay_loop_heights heights_split [OF am assms(4)])
  then obtain st1 where 1: "replay_over ops r c (heights a m) \<lparr>trie = ct, progress = []\<rparr> = Inr st1"
    by (auto simp: replay_over_append split: sum.splits)
  from replay_over_height [OF assms(1) 1] replay_over_verified [OF 1 ne] 1 am
  show ?thesis by (simp add: replay_def replay_loop_heights of_nat_length_heights)
qed

theorem replay_verifies_every_height_witness:
  "\<exists>st1. replay toy_ops example_repo example_chain 0 2 toy_new = Inr st1 \<and>
      verified toy_ops example_chain (trie st1) \<and>
      ctHeight toy_ops (trie st1) = ctHeight toy_ops toy_new + (2 - 0)"
proof -
  have "\<exists>st. replay toy_ops example_repo example_chain 0 3 toy_new = Inr st"
    by (simp add: replay_eval)
  then obtain st where "replay toy_ops example_repo example_chain 0 3 toy_new = Inr st" ..
  moreover have "(0::int32) <s 2" "(2::int32) \<le>s 3" by (simp_all add: int32_eval)
  ultimately show ?thesis
    using replay_verifies_every_height [OF wf_toy_ops, of example_repo example_chain 0 3 toy_new _ 2]
    by blast
qed

text \<open>
  C12: Replay aborts at the first height that fails, with the error of that
  height: when the heights before \<open>h\<close> replay without error and the step at \<open>h\<close>
  fails (a hash mismatch, a change the trie refuses, a load error), the replay
  of every longer range returns that error, and no later batch is applied.
\<close>

theorem replay_stops_at_first_error:
  assumes "a \<le>s h" and "h <s b" and "replay_loop ops r c a h st = Inr st1"
    and "replay_step ops r c h st1 = Inl e"
  shows "replay_loop ops r c a b st = Inl e"
proof -
  from assms(2) have "h \<le>s b" by (simp add: word_sle_eq word_sless_alt)
  with assms show ?thesis
    by (simp add: replay_loop_heights heights_split [of a h b] replay_over_append
        heights_Cons [of h b])
qed

theorem replay_stops_at_first_error_witness:
  "replay_loop toy_ops tampered_repo example_chain 0 3 \<lparr>trie = toy_new, progress = []\<rparr> =
     Inl (AppendBlockFailed (HashMismatched 2 [2, 1, 18] [2, 1, 19]))"
proof -
  let ?st1 = "\<lparr>trie = \<lparr>tHeight = 1, tClaims = [(NewOutPoint [1] 0, 10)], tSupports = [],
                tRoot = [1, 0, 10]\<rparr>, progress = []\<rparr>"
  have 1: "replay_loop toy_ops tampered_repo example_chain 0 1 \<lparr>trie = toy_new, progress = []\<rparr>
      = Inr ?st1"
    by (simp add: replay_eval)
  have 2: "replay_step toy_ops tampered_repo example_chain 1 ?st1 =
      Inl (AppendBlockFailed (HashMismatched 2 [2, 1, 18] [2, 1, 19]))"
    by (simp add: replay_eval)
  have "(0::int32) \<le>s 1" "(1::int32) <s 3" by (simp_all add: int32_eval)
  then show ?thesis by (rule replay_stops_at_first_error [OF _ _ 1 2])
qed

text \<open>
  C23: A height with no batch in the change log replays exactly as if the
  empty batch were stored there: the not-found result of \<^verbatim>\<open>Load\<close> is not an
  error, and the block is still committed and verified.
\<close>

theorem replay_not_found_is_empty_batch:
  assumes "Load r (ht + 1) = Inl ErrNotFound"
  shows "replay_step ops r c ht st =
         replay_step ops (r\<lparr>batches := (batches r)(ht + 1 \<mapsto> [])\<rparr>) c ht st"
  using assms by (simp add: replay_step_def load_changes_def Load_def split: if_splits option.splits)

theorem replay_not_found_is_empty_batch_witness:
  "replay_step toy_ops empty_repo tall_chain 0 \<lparr>trie = tall_trie, progress = []\<rparr> =
   replay_step toy_ops (empty_repo\<lparr>batches := (batches empty_repo)(0 + 1 \<mapsto> [])\<rparr>) tall_chain 0
     \<lparr>trie = tall_trie, progress = []\<rparr>"
  by (rule replay_not_found_is_empty_batch) simp

text \<open>
  C38: Replay of the range from \<open>a\<close> to \<open>b\<close> reads the change log only at
  the heights \<open>a + 1\<close> to \<open>b\<close>: two logs that agree on these heights replay to
  the same result, whatever they hold elsewhere (the batch at height \<open>a\<close>
  included).
\<close>

theorem replay_reads_only_its_range:
  assumes "\<forall>h. a <s h \<and> h \<le>s b \<longrightarrow> Load r h = Load r' h"
  shows "replay ops r c a b ct = replay ops r' c a b ct"
proof -
  from assms have "list_all (\<lambda>h. Load r (h + 1) = Load r' (h + 1)) (heights a b)"
    using heights_succ_range [of a b] by (auto simp: list_all_iff)
  then show ?thesis
    by (simp add: replay_def replay_loop_heights replay_over_cong)
qed

theorem replay_reads_only_its_range_witness:
  "replay toy_ops example_repo example_chain 0 3 toy_new =
   replay toy_ops (example_repo\<lparr>batches := (batches example_repo)(7 \<mapsto> corrupt_batch)\<rparr>)
     example_chain 0 3 toy_new"
proof -
  have "\<forall>h. 0 <s h \<and> h \<le>s 3 \<longrightarrow>
      Load example_repo h =
      Load (example_repo\<lparr>batches := (batches example_repo)(7 \<mapsto> corrupt_batch)\<rparr>) h"
    by (auto simp: Load_def example_repo_def empty_repo_def int32_eval)
  then show ?thesis by (rule replay_reads_only_its_range)
qed

text \<open>
  C39: A change whose type is none of the five known ones aborts the batch
  with the invalid-change-type error naming that change, once the changes
  before it have been applied; the changes after it are not applied.
\<close>

theorem replay_invalid_change_type:
  assumes "apply_changes ops pre ct = Inr ct1" and "Type chg = OtherType"
  shows "apply_changes ops (pre @ chg # post) ct = Inl (ExecuteChangeFailed chg InvalidChangeType)"
  using assms by (simp add: apply_changes_stops apply_change_invalid)

theorem replay_invalid_change_type_witness:
  "apply_changes toy_ops corrupt_batch toy_new =
     Inl (ExecuteChangeFailed (hd batch1\<lparr>Type := OtherType\<rparr>) InvalidChangeType)"
proof -
  have "apply_changes toy_ops [hd batch1] toy_new =
      Inr (toy_new\<lparr>tClaims := [(NewOutPoint [1] 0, 10)]\<rparr>)"
    by (simp add: replay_eval)
  from replay_invalid_change_type [OF this, of "hd batch1\<lparr>Type := OtherType\<rparr>" "[hd batch3]"]
  show ?thesis by (simp add: corrupt_batch_def)
qed

text \<open>
  The progress lines of a successful replay are exactly the multiples of
  1000 among the heights the trie passes through, in ascending order: the
  height of the trie at the start plus 1, plus 2, and so on, one per height of
  the range.
\<close>

theorem replay_progress:
  assumes "wf_trie ops" and "replay ops r c a b ct = Inr st"
  shows "progress st =
     filter (\<lambda>h. sint h smod 1000 = 0)
       (map (\<lambda>i. ctHeight ops ct + 1 + of_nat i) [0..<length (heights a b)])"
  using replay_over_progress [OF assms(1), of r c "heights a b" "\<lparr>trie = ct, progress = []\<rparr>" st]
    assms(2) by (simp add: replay_def replay_loop_heights)

theorem replay_progress_witness:
  "\<exists>st. replay toy_ops empty_repo tall_chain 0 1 tall_trie = Inr st \<and> progress st = [1000]"
proof -
  have e: "replay toy_ops empty_repo tall_chain 0 1 tall_trie =
      Inr \<lparr>trie = tall_trie\<lparr>tHeight := 1000\<rparr>, progress = [1000]\<rparr>"
    by (simp add: replay_eval)
  from replay_progress [OF wf_toy_ops e] e show ?thesis by simp
qed


text \<open>
  A replay command that succeeds has first deleted the four
  repositories of derived state, in order, has run the loop on the opened
  change log, the loaded chain and the freshly created trie, and has closed
  the trie.
\<close>

theorem replay_command_wipes_first:
  assumes "result (replay_command ops w a b) = Inr st"
  shows "deleted (replay_command ops w a b) = derived_repos \<and>
         trieClosed (replay_command ops w a b) \<and>
         (\<exists>chainRepo c ct. openChainRepo w = Some chainRepo \<and> loadChain w = Some c \<and>
            newClaimTrie w = Some ct \<and> replay ops chainRepo c a b ct = Inr st)"
  using assms
  by (auto simp: replay_command_result split: if_splits option.splits sum.splits)

theorem replay_command_wipes_first_witness:
  "deleted (replay_command toy_ops example_world 0 3) = derived_repos \<and>
   trieClosed (replay_command toy_ops example_world 0 3)"
proof -
  have "\<exists>st. result (replay_command toy_ops example_world 0 3) = Inr st"
    by (simp add: replay_command_def derived_repos_def example_world_def replay_eval)
  then obtain st where "result (replay_command toy_ops example_world 0 3) = Inr st" ..
  from replay_command_wipes_first [OF this] show ?thesis by simp
qed


end
