(* ===== verification/Dump.thy ===== *)
theory Dump
  imports Example_Ledger
begin

text \<open>
  The \<^verbatim>\<open>dump\<close> command (\<^verbatim>\<open>chain.go\<close>, lines 55 to 75): open the change log and
  print the batches of the heights \<open>fromHeight\<close> to \<open>toHeight\<close>, both included.
  The output is the list of the changes printed. The loop counts in \<open>int32\<close>
  with the test \<^verbatim>\<open>height <= toHeight\<close>, which no height fails when \<open>toHeight\<close> is
  \<open>MaxInt32\<close>; the loop therefore takes fuel, and \<open>None\<close> is a run that has not
  returned within it.
\<close>

section \<open>The command\<close>

datatype dump_error = DumpOpenFailed | DumpLoadFailed repo_error

text \<open>What a run leaves: the changes printed and the error returned, if any.\<close>

type_synonym dump_result = "change list \<times> dump_error option"

fun dump_loop :: "nat \<Rightarrow> repo \<Rightarrow> int32 \<Rightarrow> int32 \<Rightarrow> change list \<Rightarrow> dump_result option" where
  "dump_loop 0 r height toHeight out = None"
| "dump_loop (Suc fuel) r height toHeight out =
     (if height \<le>s toHeight then
        (case Load r height of
           Inl ErrNotFound \<Rightarrow> dump_loop fuel r (height + 1) toHeight out
         | Inl e \<Rightarrow> Some (out, Some (DumpLoadFailed e))
         | Inr changes \<Rightarrow> dump_loop fuel r (height + 1) toHeight (out @ changes))
      else Some (out, None))"

definition dump :: "nat \<Rightarrow> repo option \<Rightarrow> int32 \<Rightarrow> int32 \<Rightarrow> dump_result option" where
  "dump fuel opened fromHeight toHeight =
     (case opened of
        None \<Rightarrow> Some ([], Some DumpOpenFailed)
      | Some chainRepo \<Rightarrow> dump_loop fuel chainRepo fromHeight toHeight [])"

section \<open>Reference definitions\<close>

text \<open>
  Printing the batches of an explicit list of heights, and the fuel that is
  enough for a range: one unit per height and one for the last test.
\<close>

fun dump_over :: "repo \<Rightarrow> int32 list \<Rightarrow> change list \<Rightarrow> dump_result" where
  "dump_over r [] out = (out, None)"
| "dump_over r (h # hs) out =
     (case Load r h of
        Inl ErrNotFound \<Rightarrow> dump_over r hs out
      | Inl e \<Rightarrow> (out, Some (DumpLoadFailed e))
      | Inr changes \<Rightarrow> dump_over r hs (out @ changes))"

definition dump_fuel :: "int32 \<Rightarrow> int32 \<Rightarrow> nat" where
  "dump_fuel fromHeight toHeight = nat (sint toHeight + 1 - sint fromHeight) + 1"

section \<open>Lemmas\<close>

lemma sle_iff_sless_succ: "(y::int32) \<noteq> MaxInt32 \<Longrightarrow> x \<le>s y \<longleftrightarrow> x <s y + 1"
  by (simp add: word_sle_eq word_sless_alt neq_MaxInt32_iff sint_succ)

lemma dump_loop_heights:
  "toHeight \<noteq> MaxInt32 \<Longrightarrow> nat (sint toHeight + 1 - sint height) < fuel \<Longrightarrow>
   dump_loop fuel r height toHeight out =
     Some (dump_over r (heights height (toHeight + 1)) out)"
proof (induction fuel arbitrary: height out)
  case (Suc fuel)
  show ?case
  proof (cases "height \<le>s toHeight")
    case True
    with Suc.prems have lt: "height <s toHeight + 1" by (simp add: sle_iff_sless_succ)
    have "nat (sint toHeight + 1 - sint (height + 1)) < fuel"
      using sle_not_max_measure [OF True Suc.prems(1)] Suc.prems(2) by linarith
    then have "dump_loop fuel r (height + 1) toHeight out' =
        Some (dump_over r (heights (height + 1) (toHeight + 1)) out')" for out'
      by (rule Suc.IH [OF Suc.prems(1)])
    with True lt show ?thesis
      by (simp add: heights_Cons split: sum.splits repo_error.splits)
  next
    case False
    with Suc.prems have "\<not> height <s toHeight + 1" by (simp add: sle_iff_sless_succ)
    with False show ?thesis by simp
  qed
qed simp

lemma dump_over_append:
  "dump_over r (xs @ ys) out =
     (case dump_over r xs out of
        (out', None) \<Rightarrow> dump_over r ys out'
      | (out', Some e) \<Rightarrow> (out', Some e))"
  by (induction xs arbitrary: out) (auto split: sum.splits repo_error.splits)

lemma dump_over_sound:
  "list_all (\<lambda>h. \<not> loadFails r h) hs \<Longrightarrow>
   dump_over r hs out = (out @ concat (map (stored r) hs), None)"
  by (induction hs arbitrary: out)
    (auto simp: Load_def stored_def split: option.splits)

lemma dump_over_upto:
  "dump_over r hs out =
     (out @ concat (map (stored r) (takeWhile (\<lambda>h. \<not> loadFails r h) hs)),
      if list_all (\<lambda>h. \<not> loadFails r h) hs then None else Some (DumpLoadFailed ErrIO))"
  by (induction hs arbitrary: out) (auto simp: Load_def stored_def split: option.splits)

lemma dump_loop_starved:
  "toHeight \<noteq> MaxInt32 \<Longrightarrow> \<forall>h. \<not> loadFails r h \<Longrightarrow>
   fuel \<le> nat (sint toHeight + 1 - sint height) \<Longrightarrow>
   dump_loop fuel r height toHeight out = None"
proof (induction fuel arbitrary: height out)
  case (Suc fuel)
  from Suc.prems(3) have le: "height \<le>s toHeight" by (simp add: word_sle_eq)
  from le Suc.prems(1) have "sint height < 2 ^ 31 - 1"
    by (simp add: word_sle_eq neq_MaxInt32_iff)
  then have "sint (height + 1) = sint height + 1" by (rule sint_succ)
  with Suc.prems(3) have "fuel \<le> nat (sint toHeight + 1 - sint (height + 1))" by simp
  from Suc.IH [OF Suc.prems(1,2) this] le Suc.prems(2) show ?case
    by (simp add: Load_def split: option.splits)
qed simp

lemma dump_over_prefix: "\<exists>more. fst (dump_over r hs out) = out @ more"
proof (induction hs arbitrary: out)
  case (Cons h hs)
  show ?case
  proof (cases "Load r h")
    case (Inl e)
    with Cons [of out] show ?thesis by (cases e) auto
  next
    case (Inr changes)
    with Cons [of "out @ changes"] show ?thesis by auto
  qed
qed simp

section \<open>Properties\<close>

lemmas dump_eval =
  heights.simps Load_def example_repo_def empty_repo_def int32_eval MaxInt32_def dump_fuel_def

text \<open>
  C26: With \<open>toHeight = MaxInt32\<close> the test \<^verbatim>\<open>height <= toHeight\<close> holds for every
  height, the counter wraps around, and on a change log whose loads never
  fail the dump does not return, whatever the fuel.
\<close>

theorem dump_never_returns:
  assumes "\<forall>h. \<not> loadFails r h"
  shows "dump_loop fuel r height MaxInt32 out = None"
  using assms
  by (induction fuel arbitrary: height out)
    (auto simp: Load_def split: option.splits)

theorem dump_never_returns_witness:
  "dump_loop 1000 example_repo 0 MaxInt32 [] = None"
proof -
  have "\<forall>h. \<not> loadFails example_repo h" by (simp add: dump_eval)
  then show ?thesis by (rule dump_never_returns)
qed

text \<open>
  C20: What the dump prints and returns when \<open>toHeight\<close> is not the largest
  \<open>int32\<close>. With one unit of fuel per height of the range and one more the
  run ends. It has printed the stored batches of the heights from
  \<open>fromHeight\<close> up to the first height whose load fails with an error other
  than not-found, or up to \<open>toHeight\<close> (included) when there is none, in
  ascending order of height and in the stored order within a batch; a height
  with no batch contributes nothing and is not an error. It returns the load
  error in the first case, after which no height is read, and no error in the
  second. With less fuel, on a log whose loads do not fail, the run has not
  ended: the loop makes exactly one test per height and one more.
\<close>

theorem dump_output:
  assumes "toHeight \<noteq> MaxInt32"
  shows "(dump_fuel fromHeight toHeight \<le> fuel \<longrightarrow>
            dump fuel (Some r) fromHeight toHeight =
              Some (concat (map (stored r)
                      (takeWhile (\<lambda>h. \<not> loadFails r h) (heights fromHeight (toHeight + 1)))),
                    if list_all (\<lambda>h. \<not> loadFails r h) (heights fromHeight (toHeight + 1))
                    then None else Some (DumpLoadFailed ErrIO))) \<and>
         (fuel < dump_fuel fromHeight toHeight \<and> (\<forall>h. \<not> loadFails r h) \<longrightarrow>
            dump fuel (Some r) fromHeight toHeight = None)"
  using assms dump_over_upto [of r _ "[]"]
  by (simp add: dump_def dump_fuel_def dump_loop_heights dump_loop_starved)

theorem dump_output_witness:
  "dump 3 (Some example_repo) 2 3 = Some (batch2 @ batch3, None) \<and>
   dump 5 (Some (example_repo\<lparr>loadFails := (\<lambda>h. h = 2)\<rparr>)) 1 3 =
     Some (batch1, Some (DumpLoadFailed ErrIO)) \<and>
   dump 2 (Some example_repo) 2 3 = None"
proof -
  let ?r = "example_repo\<lparr>loadFails := (\<lambda>h. h = 2)\<rparr>"
  have m: "(3::int32) \<noteq> MaxInt32" by (simp add: dump_eval)
  have f: "dump_fuel 2 3 \<le> 3" "dump_fuel 1 3 \<le> 5" "2 < dump_fuel 2 3"
    "\<forall>h. \<not> loadFails example_repo h"
    by (simp_all add: dump_eval)
  from dump_output [OF m, of 2 3 example_repo] dump_output [OF m, of 1 5 ?r]
    dump_output [OF m, of 2 2 example_repo] f
  show ?thesis by (simp add: dump_eval stored_def)
qed

text \<open>
  The scenario of the specification: the dump of the heights 1 to 3 of
  the scenario's change log prints the claim of block 1, the competing claim
  and the support of block 2 and the spend of block 3, four changes in all.
\<close>

theorem dump_scenario:
  "dump 4 (Some example_repo) 1 3 = Some (batch1 @ batch2 @ batch3, None) \<and>
   length (batch1 @ batch2 @ batch3) = 4"
proof -
  have "dump_fuel 1 3 \<le> 4" by (simp add: dump_fuel_def)
  moreover have "(3::int32) \<noteq> MaxInt32" by (simp add: MaxInt32_def)
  ultimately have "dump 4 (Some example_repo) 1 3 =
      Some (dump_over example_repo (heights 1 (3 + 1)) [])"
    by (simp add: dump_def dump_loop_heights dump_fuel_def)
  then show ?thesis
    by (simp add: heights.simps Load_def example_repo_def empty_repo_def int32_eval)
      (simp add: batch1_def batch2_def batch3_def)
qed

end
