(* ===== verification/Extractor.thy ===== *)
theory Extractor
  imports Example_Ledger
begin

text \<open>
  The change extractor: the body of the block loop of
  \<^verbatim>\<open>chainConverter.processBlock\<close> (\<^verbatim>\<open>chain.go\<close>, lines 321 to 392). For every
  transaction of a block it registers the transaction's outputs in the
  unspent-output view, skips a coinbase, turns every input that spends a claim
  script into a spend change and every output that carries a claim script into
  a creation change, appending to the block's batch in that order.

  Each loop of the source is one recursive function over the list it ranges
  over, with the batch \<open>changes\<close> (and for transactions the view) passed through
  as state; each loop body is one definition. The two nil dereferences the
  source runs into (a missing view entry, a malformed claim script) end the
  program with a panic and are the error values of the model.

  The second half of the theory states what the loops compute without their
  accumulators (\<open>spends_of\<close>, \<open>creates_of\<close>, \<open>tx_changes\<close>, \<open>txs_changes\<close>) and
  when they succeed (\<open>txin_ok\<close>, \<open>txout_ok\<close>, \<open>tx_ok\<close>, \<open>txs_ok\<close>), proves that the
  loops implement it, and derives the properties of a batch from it: its
  well-formedness, the order of spends and creations, the panics.
\<close>

section \<open>Errors\<close>

text \<open>
  \<open>MissingInput op\<close>: \<^verbatim>\<open>LookupEntry\<close> returned \<^verbatim>\<open>nil\<close> for \<open>op\<close>; the source logs
  and then calls \<^verbatim>\<open>e.PkScript()\<close> on the nil entry. \<open>MalformedScript s\<close>: the
  decoder failed on \<open>s\<close> with an error other than \<^verbatim>\<open>ErrNotClaimScript\<close> and
  returned a nil script, on which the source calls \<^verbatim>\<open>cs.Name()\<close>.
\<close>

datatype extract_error = MissingInput outpoint | MalformedScript bytes

section \<open>Building a change\<close>

text \<open>
  \<^verbatim>\<open>copy(chg.ClaimID[:], cs.ClaimID())\<close> copies into the zeroed 20-byte array of
  a fresh change: as many bytes as both sides have, the rest stays zero.
\<close>

definition copy_claim_id :: "bytes \<Rightarrow> claim_id" where
  "copy_claim_id src = take ClaimIDSize src @ replicate (ClaimIDSize - length src) 0"

text \<open>
  The change of a spent claim script (lines 343 to 359). The struct literal
  leaves \<open>Type\<close>, \<open>ClaimID\<close> and \<open>Amount\<close> at their zero values; the switch has no
  default, so another opcode leaves them there.
\<close>

definition spend_change :: "codec \<Rightarrow> int32 \<Rightarrow> outpoint \<Rightarrow> claim_script \<Rightarrow> change" where
  "spend_change x ht op cs =
     (let chg = \<lparr>Type = AddClaim, Height = ht, Name = csName cs, ClaimID = zeroClaimID,
                 OutPoint = op, Amount = 0\<rparr>
      in if csOpcode cs = OP_CLAIMNAME then
           chg\<lparr>Type := SpendClaim, ClaimID := NewClaimID x (OutPoint chg)\<rparr>
         else if csOpcode cs = OP_UPDATECLAIM then
           chg\<lparr>Type := SpendClaim, ClaimID := copy_claim_id (csClaimID cs)\<rparr>
         else if csOpcode cs = OP_SUPPORTCLAIM then
           chg\<lparr>Type := SpendSupport, ClaimID := copy_claim_id (csClaimID cs)\<rparr>
         else chg)"

text \<open>
  The change of a created claim script (lines 371 to 389): output \<open>i\<close> of the
  transaction with hash \<open>h\<close>, its outpoint index being \<^verbatim>\<open>uint32(i)\<close>.
\<close>

definition create_change :: "codec \<Rightarrow> int32 \<Rightarrow> hash \<Rightarrow> nat \<Rightarrow> tx_out \<Rightarrow> claim_script \<Rightarrow> change" where
  "create_change x ht h i txOut cs =
     (let op = (NewOutPoint h 0)\<lparr>Index := of_nat i\<rparr>;
          chg = \<lparr>Type = AddClaim, Height = ht, Name = csName cs, ClaimID = zeroClaimID,
                 OutPoint = op, Amount = Value txOut\<rparr>
      in if csOpcode cs = OP_CLAIMNAME then
           chg\<lparr>Type := AddClaim, ClaimID := NewClaimID x op\<rparr>
         else if csOpcode cs = OP_SUPPORTCLAIM then
           chg\<lparr>Type := AddSupport, ClaimID := copy_claim_id (csClaimID cs)\<rparr>
         else if csOpcode cs = OP_UPDATECLAIM then
           chg\<lparr>Type := UpdateClaim, ClaimID := copy_claim_id (csClaimID cs)\<rparr>
         else chg)"

section \<open>The input loop\<close>

text \<open>One iteration of the loop over \<^verbatim>\<open>tx.MsgTx().TxIn\<close> (lines 330 to 361).\<close>

definition process_txin ::
  "codec \<Rightarrow> utxo_view \<Rightarrow> int32 \<Rightarrow> tx_in \<Rightarrow> change list \<Rightarrow> extract_error + change list" where
  "process_txin x view ht txIn changes =
     (let op = PreviousOutPoint txIn in
      case LookupEntry view op of
        None \<Rightarrow> Inl (MissingInput op)
      | Some pkScript \<Rightarrow>
          (case DecodeClaimScript x pkScript of
             ErrNotClaimScript \<Rightarrow> Inr changes
           | ErrInvalidClaimScript \<Rightarrow> Inl (MalformedScript pkScript)
           | Decoded cs \<Rightarrow> Inr (changes @ [spend_change x ht (PreviousOutPoint txIn) cs])))"

fun process_txins ::
  "codec \<Rightarrow> utxo_view \<Rightarrow> int32 \<Rightarrow> tx_in list \<Rightarrow> change list \<Rightarrow> extract_error + change list" where
  "process_txins x view ht [] changes = Inr changes"
| "process_txins x view ht (txIn # rest) changes =
     (case process_txin x view ht txIn changes of
        Inl e \<Rightarrow> Inl e
      | Inr changes' \<Rightarrow> process_txins x view ht rest changes')"

section \<open>The output loop\<close>

text \<open>
  One iteration of the loop over \<^verbatim>\<open>tx.MsgTx().TxOut\<close> (lines 366 to 390). The
  source tests the decoder's error against \<^verbatim>\<open>ErrNotClaimScript\<close> only; after
  any other error it goes on with the nil script.
\<close>

definition process_txout ::
  "codec \<Rightarrow> int32 \<Rightarrow> hash \<Rightarrow> nat \<Rightarrow> tx_out \<Rightarrow> change list \<Rightarrow> extract_error + change list" where
  "process_txout x ht h i txOut changes =
     (case DecodeClaimScript x (PkScript txOut) of
        ErrNotClaimScript \<Rightarrow> Inr changes
      | ErrInvalidClaimScript \<Rightarrow> Inl (MalformedScript (PkScript txOut))
      | Decoded cs \<Rightarrow> Inr (changes @ [create_change x ht h i txOut cs]))"

fun process_txouts ::
  "codec \<Rightarrow> int32 \<Rightarrow> hash \<Rightarrow> nat \<Rightarrow> tx_out list \<Rightarrow> change list \<Rightarrow> extract_error + change list" where
  "process_txouts x ht h i [] changes = Inr changes"
| "process_txouts x ht h i (txOut # rest) changes =
     (case process_txout x ht h i txOut changes of
        Inl e \<Rightarrow> Inl e
      | Inr changes' \<Rightarrow> process_txouts x ht h (Suc i) rest changes')"

section \<open>Transactions and blocks\<close>

text \<open>
  The body of the loop over \<^verbatim>\<open>block.Transactions()\<close> (lines 323 to 391): the
  outputs are registered first, for a coinbase too; then a coinbase is
  skipped; then the inputs are resolved against the view that already holds
  this transaction's outputs; then the outputs are scanned.
\<close>

definition process_tx ::
  "codec \<Rightarrow> int32 \<Rightarrow> tx \<Rightarrow> utxo_view \<Rightarrow> change list \<Rightarrow>
     extract_error + (utxo_view \<times> change list)" where
  "process_tx x ht t view changes =
     (let view' = AddTxOuts t view in
      if IsCoinBase t then Inr (view', changes)
      else
        case process_txins x view' ht (TxIn t) changes of
          Inl e \<Rightarrow> Inl e
        | Inr changes1 \<Rightarrow>
            (case process_txouts x ht (txHash t) 0 (TxOut t) changes1 of
               Inl e \<Rightarrow> Inl e
             | Inr changes2 \<Rightarrow> Inr (view', changes2)))"

fun process_txs ::
  "codec \<Rightarrow> int32 \<Rightarrow> tx list \<Rightarrow> utxo_view \<Rightarrow> change list \<Rightarrow>
     extract_error + (utxo_view \<times> change list)" where
  "process_txs x ht [] view changes = Inr (view, changes)"
| "process_txs x ht (t # rest) view changes =
     (case process_tx x ht t view changes of
        Inl e \<Rightarrow> Inl e
      | Inr (view', changes') \<Rightarrow> process_txs x ht rest view' changes')"

text \<open>
  One block (lines 321 to 392): \<^verbatim>\<open>var changes []change.Change\<close> starts the batch
  empty; the view is the one the stage has built so far.
\<close>

definition extract_block ::
  "codec \<Rightarrow> utxo_view \<Rightarrow> block \<Rightarrow> extract_error + (utxo_view \<times> change list)" where
  "extract_block x view b = process_txs x (blockHeight b) (Transactions b) view []"

lemmas extract_step_defs [extract_defs] =
  process_txin_def process_txout_def process_tx_def extract_block_def

lemmas change_defs [extract_defs] = spend_change_def create_change_def copy_claim_id_def

lemmas eval_defs = scenario_defs ledger_defs extract_defs

section \<open>What the loops compute\<close>

text \<open>
  An input is fine when the view resolves it and its script is not malformed;
  it contributes a spend change when the script decodes to a claim script.
\<close>

definition txin_ok :: "codec \<Rightarrow> utxo_view \<Rightarrow> tx_in \<Rightarrow> bool" where
  "txin_ok x view txIn =
     (case LookupEntry view (PreviousOutPoint txIn) of
        None \<Rightarrow> False
      | Some pkScript \<Rightarrow> DecodeClaimScript x pkScript \<noteq> ErrInvalidClaimScript)"

definition spend_of :: "codec \<Rightarrow> utxo_view \<Rightarrow> int32 \<Rightarrow> tx_in \<Rightarrow> change list" where
  "spend_of x view ht txIn =
     (case LookupEntry view (PreviousOutPoint txIn) of
        None \<Rightarrow> []
      | Some pkScript \<Rightarrow>
          (case DecodeClaimScript x pkScript of
             Decoded cs \<Rightarrow> [spend_change x ht (PreviousOutPoint txIn) cs]
           | _ \<Rightarrow> []))"

definition spends_of :: "codec \<Rightarrow> utxo_view \<Rightarrow> int32 \<Rightarrow> tx_in list \<Rightarrow> change list" where
  "spends_of x view ht ins = concat (map (spend_of x view ht) ins)"

definition txout_ok :: "codec \<Rightarrow> tx_out \<Rightarrow> bool" where
  "txout_ok x txOut \<longleftrightarrow> DecodeClaimScript x (PkScript txOut) \<noteq> ErrInvalidClaimScript"

definition create_of :: "codec \<Rightarrow> int32 \<Rightarrow> hash \<Rightarrow> nat \<times> tx_out \<Rightarrow> change list" where
  "create_of x ht h = (\<lambda>(i, txOut).
     case DecodeClaimScript x (PkScript txOut) of
       Decoded cs \<Rightarrow> [create_change x ht h i txOut cs]
     | _ \<Rightarrow> [])"

definition creates_of :: "codec \<Rightarrow> int32 \<Rightarrow> hash \<Rightarrow> nat \<Rightarrow> tx_out list \<Rightarrow> change list" where
  "creates_of x ht h i outs = concat (map (create_of x ht h) (enumerate i outs))"

definition tx_ok :: "codec \<Rightarrow> utxo_view \<Rightarrow> tx \<Rightarrow> bool" where
  "tx_ok x view t \<longleftrightarrow>
     IsCoinBase t \<or>
     list_all (txin_ok x (AddTxOuts t view)) (TxIn t) \<and> list_all (txout_ok x) (TxOut t)"

definition tx_changes :: "codec \<Rightarrow> int32 \<Rightarrow> utxo_view \<Rightarrow> tx \<Rightarrow> change list" where
  "tx_changes x ht view t =
     (if IsCoinBase t then []
      else spends_of x (AddTxOuts t view) ht (TxIn t) @ creates_of x ht (txHash t) 0 (TxOut t))"

fun txs_ok :: "codec \<Rightarrow> utxo_view \<Rightarrow> tx list \<Rightarrow> bool" where
  "txs_ok x view [] = True"
| "txs_ok x view (t # rest) = (tx_ok x view t \<and> txs_ok x (AddTxOuts t view) rest)"

fun txs_changes :: "codec \<Rightarrow> int32 \<Rightarrow> utxo_view \<Rightarrow> tx list \<Rightarrow> change list" where
  "txs_changes x ht view [] = []"
| "txs_changes x ht view (t # rest) =
     tx_changes x ht view t @ txs_changes x ht (AddTxOuts t view) rest"

definition register_all :: "tx list \<Rightarrow> utxo_view \<Rightarrow> utxo_view" where
  "register_all txs view = fold AddTxOuts txs view"

text \<open>
  The transaction loop as the specification words it: inputs first, against
  the view before this transaction; then the outputs are registered; nothing
  is done for a coinbase.
\<close>

definition process_tx_spec ::
  "codec \<Rightarrow> int32 \<Rightarrow> tx \<Rightarrow> utxo_view \<Rightarrow> change list \<Rightarrow>
     extract_error + (utxo_view \<times> change list)" where
  "process_tx_spec x ht t view changes =
     (if IsCoinBase t then Inr (view, changes)
      else
        case process_txins x view ht (TxIn t) changes of
          Inl e \<Rightarrow> Inl e
        | Inr changes1 \<Rightarrow>
            (case process_txouts x ht (txHash t) 0 (TxOut t) changes1 of
               Inl e \<Rightarrow> Inl e
             | Inr changes2 \<Rightarrow> Inr (AddTxOuts t view, changes2)))"

section \<open>The changes built\<close>

lemma length_copy_claim_id [simp]: "length (copy_claim_id src) = ClaimIDSize"
  by (simp add: copy_claim_id_def)

lemma copy_claim_id_exact: "length src = ClaimIDSize \<Longrightarrow> copy_claim_id src = src"
  by (simp add: copy_claim_id_def)

lemma copy_claim_id_long:
  "ClaimIDSize \<le> length src \<Longrightarrow> copy_claim_id src = take ClaimIDSize src"
  by (simp add: copy_claim_id_def)

lemma spend_change_fields [simp]:
  "Height (spend_change x ht op cs) = ht"
  "Name (spend_change x ht op cs) = csName cs"
  "OutPoint (spend_change x ht op cs) = op"
  "Amount (spend_change x ht op cs) = 0"
  by (simp_all add: spend_change_def Let_def)

lemma create_change_fields [simp]:
  "Height (create_change x ht h i txOut cs) = ht"
  "Name (create_change x ht h i txOut cs) = csName cs"
  "OutPoint (create_change x ht h i txOut cs) = NewOutPoint h (of_nat i)"
  "Amount (create_change x ht h i txOut cs) = Value txOut"
  by (simp_all add: create_change_def Let_def NewOutPoint_def)

lemma spend_change_is_spend:
  "claim_opcode (csOpcode cs) \<Longrightarrow> is_spend (spend_change x ht op cs)"
  by (auto simp: claim_opcode_def spend_change_def is_spend_def Let_def)

lemma create_change_is_create: "is_create (create_change x ht h i txOut cs)"
  by (simp add: create_change_def is_create_def Let_def)

lemma spend_change_ClaimID:
  "wf_codec x \<Longrightarrow> length (ClaimID (spend_change x ht op cs)) = ClaimIDSize"
  by (simp add: spend_change_def Let_def zeroClaimID_def)

lemma create_change_ClaimID:
  "wf_codec x \<Longrightarrow> length (ClaimID (create_change x ht h i txOut cs)) = ClaimIDSize"
  by (simp add: create_change_def Let_def zeroClaimID_def)

lemma wf_spend_change:
  "wf_codec x \<Longrightarrow> DecodeClaimScript x pkScript = Decoded cs \<Longrightarrow>
     wf_change ht (spend_change x ht op cs)"
  using spend_change_is_spend [of cs x ht op]
  by (auto simp: wf_change_def spend_change_ClaimID is_spend_def dest: wf_codec_opcode)

lemma wf_create_change:
  "wf_codec x \<Longrightarrow> wf_change ht (create_change x ht h i txOut cs)"
  using create_change_is_create [of x ht h i txOut cs]
  by (auto simp: wf_change_def create_change_ClaimID is_create_def is_spend_def)

section \<open>The loops implement the reference\<close>

lemma process_txin_ok:
  "txin_ok x view txIn \<Longrightarrow>
     process_txin x view ht txIn changes = Inr (changes @ spend_of x view ht txIn)"
  by (auto simp: txin_ok_def spend_of_def process_txin_def split: option.splits decoded.splits)

lemma process_txin_bad:
  "\<not> txin_ok x view txIn \<Longrightarrow> isl (process_txin x view ht txIn changes)"
  by (auto simp: txin_ok_def process_txin_def split: option.splits decoded.splits)

lemma process_txins_ok:
  "list_all (txin_ok x view) ins \<Longrightarrow>
     process_txins x view ht ins changes = Inr (changes @ spends_of x view ht ins)"
  by (induction ins arbitrary: changes) (auto simp: spends_of_def process_txin_ok)

lemma process_txins_bad:
  "\<not> list_all (txin_ok x view) ins \<Longrightarrow> isl (process_txins x view ht ins changes)"
proof (induction ins arbitrary: changes)
  case Nil
  then show ?case by simp
next
  case (Cons txIn rest)
  then show ?case
    by (cases "txin_ok x view txIn")
      (auto simp: process_txin_ok dest: process_txin_bad [where ht = ht and changes = changes]
        split: sum.splits)
qed

lemma process_txins_stops:
  assumes "list_all (txin_ok x view) pre"
  shows "process_txins x view ht (pre @ txIn # post) changes =
     (case process_txin x view ht txIn (changes @ spends_of x view ht pre) of
        Inl e \<Rightarrow> Inl e
      | Inr changes' \<Rightarrow> process_txins x view ht post changes')"
  using assms
  by (induction pre arbitrary: changes) (auto simp: spends_of_def process_txin_ok)

lemma process_txins_cong:
  "list_all (\<lambda>txIn. LookupEntry view (PreviousOutPoint txIn) =
                    LookupEntry view' (PreviousOutPoint txIn)) ins \<Longrightarrow>
     process_txins x view ht ins changes = process_txins x view' ht ins changes"
  by (induction ins arbitrary: changes) (auto simp: process_txin_def split: sum.splits)

lemma process_txout_ok:
  "txout_ok x txOut \<Longrightarrow>
     process_txout x ht h i txOut changes = Inr (changes @ create_of x ht h (i, txOut))"
  by (auto simp: txout_ok_def create_of_def process_txout_def split: decoded.splits)

lemma process_txout_bad:
  "\<not> txout_ok x txOut \<Longrightarrow> isl (process_txout x ht h i txOut changes)"
  by (auto simp: txout_ok_def process_txout_def split: decoded.splits)

lemma process_txouts_ok:
  "list_all (txout_ok x) outs \<Longrightarrow>
     process_txouts x ht h i outs changes = Inr (changes @ creates_of x ht h i outs)"
  by (induction outs arbitrary: i changes) (auto simp: creates_of_def process_txout_ok)

lemma process_txouts_bad:
  "\<not> list_all (txout_ok x) outs \<Longrightarrow> isl (process_txouts x ht h i outs changes)"
proof (induction outs arbitrary: i changes)
  case Nil
  then show ?case by simp
next
  case (Cons txOut rest)
  then show ?case
    by (cases "txout_ok x txOut")
      (auto simp: process_txout_ok
        dest: process_txout_bad [where ht = ht and changes = changes and h = h and i = i]
        split: sum.splits)
qed

lemma process_tx_ok:
  "tx_ok x view t \<Longrightarrow>
     process_tx x ht t view changes = Inr (AddTxOuts t view, changes @ tx_changes x ht view t)"
  by (auto simp: tx_ok_def tx_changes_def process_tx_def Let_def process_txins_ok
      process_txouts_ok)

lemma process_tx_bad:
  assumes "\<not> tx_ok x view t"
  shows "isl (process_tx x ht t view changes)"
proof (cases "list_all (txin_ok x (AddTxOuts t view)) (TxIn t)")
  case True
  with assms have "\<not> list_all (txout_ok x) (TxOut t)" and "\<not> IsCoinBase t"
    by (auto simp: tx_ok_def)
  with True show ?thesis
    using process_txouts_bad [of x "TxOut t" ht "txHash t" 0
        "changes @ spends_of x (AddTxOuts t view) ht (TxIn t)"]
    by (auto simp: process_tx_def Let_def process_txins_ok split: sum.splits)
next
  case False
  with assms show ?thesis
    using process_txins_bad [of x "AddTxOuts t view" "TxIn t" ht changes]
    by (auto simp: tx_ok_def process_tx_def Let_def split: sum.splits)
qed

lemma process_tx_Inr_iff:
  "process_tx x ht t view changes = Inr r \<longleftrightarrow>
     tx_ok x view t \<and> r = (AddTxOuts t view, changes @ tx_changes x ht view t)"
  using process_tx_bad [of x view t ht changes] process_tx_ok [of x view t ht changes]
  by (cases "process_tx x ht t view changes") auto

lemma process_txs_ok:
  "txs_ok x view txs \<Longrightarrow>
     process_txs x ht txs view changes =
       Inr (register_all txs view, changes @ txs_changes x ht view txs)"
  by (induction txs arbitrary: view changes) (auto simp: register_all_def process_tx_ok)

lemma process_txs_bad: "\<not> txs_ok x view txs \<Longrightarrow> isl (process_txs x ht txs view changes)"
proof (induction txs arbitrary: view changes)
  case Nil
  then show ?case by simp
next
  case (Cons t rest)
  then show ?case
    by (cases "tx_ok x view t")
      (auto simp: process_tx_ok dest: process_tx_bad [where ht = ht and changes = changes]
        split: sum.splits)
qed

lemma extract_block_ok:
  "txs_ok x view (Transactions b) \<Longrightarrow>
     extract_block x view b =
       Inr (register_all (Transactions b) view,
            txs_changes x (blockHeight b) view (Transactions b))"
  by (simp add: extract_block_def process_txs_ok)

lemma extract_block_bad:
  "\<not> txs_ok x view (Transactions b) \<Longrightarrow> isl (extract_block x view b)"
  by (simp add: extract_block_def process_txs_bad)

lemma extract_block_Inr_iff:
  "extract_block x view b = Inr r \<longleftrightarrow>
     txs_ok x view (Transactions b) \<and>
     r = (register_all (Transactions b) view,
          txs_changes x (blockHeight b) view (Transactions b))"
  using extract_block_bad [of x view b] extract_block_ok [of x view b]
  by (cases "extract_block x view b") auto

section \<open>Properties of every change of a batch\<close>

lemma list_all_spends_of:
  assumes "\<And>op pkScript cs. DecodeClaimScript x pkScript = Decoded cs \<Longrightarrow>
             P (spend_change x ht op cs)"
  shows "list_all P (spends_of x view ht ins)"
  using assms
  by (induction ins) (auto simp: spends_of_def spend_of_def split: option.splits decoded.splits)

lemma list_all_creates_of:
  assumes "\<And>i txOut cs. P (create_change x ht h i txOut cs)"
  shows "list_all P (creates_of x ht h i outs)"
  using assms
  by (induction outs arbitrary: i)
     (auto simp: creates_of_def create_of_def split: decoded.splits)

lemma list_all_tx_changes:
  assumes "\<And>op pkScript cs. DecodeClaimScript x pkScript = Decoded cs \<Longrightarrow>
             P (spend_change x ht op cs)"
    and "\<And>h i txOut cs. P (create_change x ht h i txOut cs)"
  shows "list_all P (tx_changes x ht view t)"
  using assms by (auto simp: tx_changes_def intro: list_all_spends_of list_all_creates_of)

lemma list_all_txs_changes:
  assumes "\<And>op pkScript cs. DecodeClaimScript x pkScript = Decoded cs \<Longrightarrow>
             P (spend_change x ht op cs)"
    and "\<And>h i txOut cs. P (create_change x ht h i txOut cs)"
  shows "list_all P (txs_changes x ht view txs)"
  using assms by (induction txs arbitrary: view) (auto intro: list_all_tx_changes)

lemma txs_changes_Height: "list_all (\<lambda>c. Height c = ht) (txs_changes x ht view txs)"
  by (rule list_all_txs_changes) simp_all

lemma txs_changes_wf: "wf_codec x \<Longrightarrow> list_all (wf_change ht) (txs_changes x ht view txs)"
  by (auto intro!: list_all_txs_changes wf_spend_change wf_create_change)

section \<open>Theorems\<close>

text \<open>
  C2: A block whose transactions are all fine (every input of a non-coinbase
  transaction resolves in the view and no claim script is malformed) is
  extracted without a panic, and the result is the reference: the view with
  the outputs of every transaction registered, and the batch that lists, for
  each non-coinbase transaction in block order, its spend changes in input
  order followed by its creation changes in output order.
\<close>

theorem extract_block_refines:
  assumes "txs_ok x view (Transactions b)"
  shows "extract_block x view b =
           Inr (register_all (Transactions b) view,
                txs_changes x (blockHeight b) view (Transactions b))"
  using assms by (rule extract_block_ok)

theorem extract_block_refines_witness:
  "txs_ok toy_codec view0 (Transactions block1) \<and>
   extract_block toy_codec view0 block1 =
     Inr (register_all (Transactions block1) view0,
          txs_changes toy_codec (blockHeight block1) view0 (Transactions block1))"
proof -
  have ok: "txs_ok toy_codec view0 (Transactions block1)"
    by (simp add: eval_defs tx_ok_def txin_ok_def txout_ok_def)
  from extract_block_refines [OF ok] ok show ?thesis by simp
qed

text \<open>
  C7: Order preservation. When a non-coinbase transaction is processed
  without a panic, the batch grows by the spend changes of its inputs
  followed by the creation changes of its outputs: every change derived from a
  consumed input (type SpendClaim or SpendSupport) comes before every change
  derived from a produced output (type AddClaim, UpdateClaim or AddSupport).
\<close>

theorem process_tx_order:
  assumes "wf_codec x" and "\<not> IsCoinBase t"
    and "process_tx x ht t view changes = Inr (view', batch)"
  shows "\<exists>spends creates.
           batch = changes @ spends @ creates \<and>
           spends = spends_of x (AddTxOuts t view) ht (TxIn t) \<and>
           creates = creates_of x ht (txHash t) 0 (TxOut t) \<and>
           list_all is_spend spends \<and> list_all is_create creates"
proof -
  from assms(2,3) have "batch = changes @ spends_of x (AddTxOuts t view) ht (TxIn t) @
      creates_of x ht (txHash t) 0 (TxOut t)"
    by (simp add: process_tx_Inr_iff tx_changes_def)
  moreover have "list_all is_spend (spends_of x (AddTxOuts t view) ht (TxIn t))"
    using assms(1) by (auto intro!: list_all_spends_of spend_change_is_spend wf_codec_opcode)
  moreover have "list_all is_create (creates_of x ht (txHash t) 0 (TxOut t))"
    by (auto intro!: list_all_creates_of create_change_is_create)
  ultimately show ?thesis by simp
qed

theorem process_tx_order_witness:
  "wf_codec toy_codec \<and> \<not> IsCoinBase tx4 \<and>
   process_tx toy_codec 3 tx4 view2 [] =
     Inr (AddTxOuts tx4 view2,
       [\<lparr>Type = SpendClaim, Height = 3, Name = alice,
         ClaimID = toy_claim_id (NewOutPoint [2] 0), OutPoint = NewOutPoint [2] 0, Amount = 0\<rparr>,
        \<lparr>Type = AddClaim, Height = 3, Name = alice,
         ClaimID = toy_claim_id (NewOutPoint [4] 0), OutPoint = NewOutPoint [4] 0, Amount = 7\<rparr>]) \<and>
   (\<exists>spends creates.
      [\<lparr>Type = SpendClaim, Height = 3, Name = alice,
         ClaimID = toy_claim_id (NewOutPoint [2] 0), OutPoint = NewOutPoint [2] 0, Amount = 0\<rparr>,
        \<lparr>Type = AddClaim, Height = 3, Name = alice,
         ClaimID = toy_claim_id (NewOutPoint [4] 0), OutPoint = NewOutPoint [4] 0, Amount = 7\<rparr>]
       = [] @ spends @ creates \<and>
      spends = spends_of toy_codec (AddTxOuts tx4 view2) 3 (TxIn tx4) \<and>
      creates = creates_of toy_codec 3 (txHash tx4) 0 (TxOut tx4) \<and>
      list_all is_spend spends \<and> list_all is_create creates)"
proof -
  have nc: "\<not> IsCoinBase tx4" by (simp add: eval_defs)
  have e: "process_tx toy_codec 3 tx4 view2 [] =
     Inr (AddTxOuts tx4 view2,
       [\<lparr>Type = SpendClaim, Height = 3, Name = alice,
         ClaimID = toy_claim_id (NewOutPoint [2] 0), OutPoint = NewOutPoint [2] 0, Amount = 0\<rparr>,
        \<lparr>Type = AddClaim, Height = 3, Name = alice,
         ClaimID = toy_claim_id (NewOutPoint [4] 0), OutPoint = NewOutPoint [4] 0, Amount = 7\<rparr>])"
    by (simp add: eval_defs)
  from process_tx_order [OF wf_toy_codec nc e] wf_toy_codec nc e show ?thesis by blast
qed

text \<open>
  C17: Every change of an extracted batch is well-formed for its block: it
  carries the block's height (so the height of the first change, under which
  the batch is saved, is the block's), its claim id is exactly 20 bytes wide,
  its type is one of the five change types, and it is either a spend with a
  zero amount or a creation. The decoder is assumed to return claim opcodes
  only and \<^verbatim>\<open>NewClaimID\<close> to return 20 bytes.
\<close>

theorem extract_block_wf:
  assumes "wf_codec x" and "extract_block x view b = Inr (view', changes)"
  shows "list_all (wf_change (blockHeight b)) changes"
proof -
  from assms(2) have "changes = txs_changes x (blockHeight b) view (Transactions b)"
    by (simp add: extract_block_Inr_iff)
  with assms(1) show ?thesis
    by (auto intro!: list_all_txs_changes wf_spend_change wf_create_change)
qed

theorem extract_block_wf_witness:
  "wf_codec toy_codec \<and>
   extract_block toy_codec view0 block1 =
     Inr (AddTxOuts tx1 (AddTxOuts (coinbase 1) view0),
          [\<lparr>Type = AddClaim, Height = 1, Name = alice,
            ClaimID = toy_claim_id (NewOutPoint [1] 0), OutPoint = NewOutPoint [1] 0,
            Amount = 10\<rparr>]) \<and>
   list_all (wf_change (blockHeight block1))
     [\<lparr>Type = AddClaim, Height = 1, Name = alice,
       ClaimID = toy_claim_id (NewOutPoint [1] 0), OutPoint = NewOutPoint [1] 0,
       Amount = 10\<rparr>]"
proof -
  have e: "extract_block toy_codec view0 block1 =
     Inr (AddTxOuts tx1 (AddTxOuts (coinbase 1) view0),
          [\<lparr>Type = AddClaim, Height = 1, Name = alice,
            ClaimID = toy_claim_id (NewOutPoint [1] 0), OutPoint = NewOutPoint [1] 0,
            Amount = 10\<rparr>])"
    by (simp add: eval_defs)
  from extract_block_wf [OF wf_toy_codec e] wf_toy_codec e show ?thesis by simp
qed

text \<open>
  C19: Extraction of a block panics exactly when some transaction of the block
  is not fine: a non-coinbase transaction has an input the view cannot
  resolve, or an input or output script that is claim-shaped but malformed.
  A script that is not a claim script never makes extraction fail.
\<close>

theorem extract_block_fails_iff:
  "isl (extract_block x view b) \<longleftrightarrow> \<not> txs_ok x view (Transactions b)"
  using extract_block_bad [of x view b] by (auto simp: extract_block_ok)

text \<open>
  C25: An unresolved input is fatal at once: if the inputs before it are fine
  and the view has no entry for its previous outpoint, processing the
  transaction ends with the panic on that outpoint, whatever follows it.
\<close>

theorem missing_input_panics:
  assumes "\<not> IsCoinBase t" and "TxIn t = pre @ txIn # post"
    and "list_all (txin_ok x (AddTxOuts t view)) pre"
    and "LookupEntry (AddTxOuts t view) (PreviousOutPoint txIn) = None"
  shows "process_tx x ht t view changes = Inl (MissingInput (PreviousOutPoint txIn))"
  using assms by (simp add: process_tx_def Let_def process_txins_stops process_txin_def)

theorem missing_input_panics_witness:
  "\<not> IsCoinBase tx3 \<and> TxIn tx3 = [] @ \<lparr>PreviousOutPoint = NewOutPoint [2] 0\<rparr> # [] \<and>
   list_all (txin_ok toy_codec (AddTxOuts tx3 NewUtxoViewpoint)) [] \<and>
   LookupEntry (AddTxOuts tx3 NewUtxoViewpoint) (NewOutPoint [2] 0) = None \<and>
   process_tx toy_codec 3 tx3 NewUtxoViewpoint [] = Inl (MissingInput (NewOutPoint [2] 0))"
proof -
  have nc: "\<not> IsCoinBase tx3" by (simp add: eval_defs)
  have ins: "TxIn tx3 = [] @ \<lparr>PreviousOutPoint = NewOutPoint [2] 0\<rparr> # []"
    by (simp add: eval_defs)
  have none: "LookupEntry (AddTxOuts tx3 NewUtxoViewpoint)
      (PreviousOutPoint \<lparr>PreviousOutPoint = NewOutPoint [2] 0\<rparr>) = None"
    by (simp add: eval_defs)
  from missing_input_panics [OF nc ins _ none, of toy_codec 3 "[]"] nc ins none
  show ?thesis by simp
qed

text \<open>
  C33: The source registers a transaction's outputs before it resolves the
  transaction's inputs, where the specification resolves the inputs first.
  For a non-coinbase transaction none of whose inputs names the transaction's
  own hash, the two orders give the same result.
\<close>

theorem process_tx_spec_equiv:
  assumes "\<not> IsCoinBase t"
    and "list_all (\<lambda>txIn. Hash (PreviousOutPoint txIn) \<noteq> txHash t) (TxIn t)"
  shows "process_tx x ht t view changes = process_tx_spec x ht t view changes"
proof -
  from assms(2) have "list_all (\<lambda>txIn. LookupEntry (AddTxOuts t view) (PreviousOutPoint txIn) =
      LookupEntry view (PreviousOutPoint txIn)) (TxIn t)"
    by (induction "TxIn t") (auto simp: AddTxOuts_other list_all_iff)
  then have "process_txins x (AddTxOuts t view) ht (TxIn t) changes =
      process_txins x view ht (TxIn t) changes"
    by (rule process_txins_cong)
  with assms(1) show ?thesis
    by (simp add: process_tx_def process_tx_spec_def Let_def)
qed

theorem process_tx_spec_equiv_witness:
  "\<not> IsCoinBase tx4 \<and>
   list_all (\<lambda>txIn. Hash (PreviousOutPoint txIn) \<noteq> txHash tx4) (TxIn tx4) \<and>
   process_tx toy_codec 3 tx4 view2 [] = process_tx_spec toy_codec 3 tx4 view2 []"
proof -
  have nc: "\<not> IsCoinBase tx4" by (simp add: eval_defs)
  have ns: "list_all (\<lambda>txIn. Hash (PreviousOutPoint txIn) \<noteq> txHash tx4) (TxIn tx4)"
    by (simp add: eval_defs)
  from process_tx_spec_equiv [OF nc ns] nc ns show ?thesis by simp
qed


end
