(* ===== verification/Converter.thy ===== *)
theory Converter
  imports Extractor
begin

text \<open>
  The converter pipeline of \<^verbatim>\<open>chain.go\<close> (lines 218 to 250 and 258 to 430): the
  three goroutines \<^verbatim>\<open>getBlock\<close>, \<^verbatim>\<open>processBlock\<close> and \<^verbatim>\<open>saveChanges\<close>, joined by
  two buffered channels and a wait group, \<^verbatim>\<open>reportStats\<close>, and the command that
  starts them and waits. The state of the system is one record; every
  goroutine is a function that takes one atomic step from its current position
  (from one channel operation to the next) or is blocked. Schedules are lists
  of goroutine names, and the reachable states are those some schedule leads
  to; a panic ends a schedule, and the states the other goroutines pass
  through while it unwinds are the dying ones. Log lines other than those of
  \<^verbatim>\<open>reportStats\<close> are not part of the state.
  A channel of capacity 0 would be a rendezvous in Go and is not what the queue
  of this theory models; the command uses capacity 1000.
\<close>

section \<open>Channels\<close>

text \<open>
  A buffered channel \<^verbatim>\<open>make(chan T, n)\<close>: a queue of at most \<open>n\<close> elements and
  the closed flag. A send blocks while the queue is full; a receive blocks
  while the queue is empty and the channel is open.
\<close>

record 'a chan =
  cap :: nat
  buf :: "'a list"
  closed :: bool

definition make_chan :: "nat \<Rightarrow> 'a chan" where
  "make_chan n = \<lparr>cap = n, buf = [], closed = False\<rparr>"

definition can_send :: "'a chan \<Rightarrow> bool" where
  "can_send ch \<longleftrightarrow> length (buf ch) < cap ch"

definition send :: "'a \<Rightarrow> 'a chan \<Rightarrow> 'a chan" where
  "send v ch = ch\<lparr>buf := buf ch @ [v]\<rparr>"

definition close_chan :: "'a chan \<Rightarrow> 'a chan" where
  "close_chan ch = ch\<lparr>closed := True\<rparr>"

lemmas chan_defs [conv_defs] = make_chan_def can_send_def send_def close_chan_def

section \<open>State\<close>

record stat =
  blocksFetched :: nat
  blocksProcessed :: nat
  changesSaved :: nat

text \<open>
  Statistics are ordered pointwise, so that the order lemmas of the library
  apply to the lines \<^verbatim>\<open>reportStats\<close> logs.
\<close>

instantiation stat_ext :: (order) order
begin

definition less_eq_stat_ext :: "'a stat_ext \<Rightarrow> 'a stat_ext \<Rightarrow> bool" where
  "less_eq_stat_ext a b \<longleftrightarrow>
     blocksFetched a \<le> blocksFetched b \<and> blocksProcessed a \<le> blocksProcessed b \<and>
     changesSaved a \<le> changesSaved b \<and> stat.more a \<le> stat.more b"

definition less_stat_ext :: "'a stat_ext \<Rightarrow> 'a stat_ext \<Rightarrow> bool" where
  "less_stat_ext a b \<longleftrightarrow> a \<le> b \<and> \<not> b \<le> a"

instance
proof
  fix x y z :: "'a stat_ext"
  show "x < y \<longleftrightarrow> x \<le> y \<and> \<not> y \<le> x" by (simp add: less_stat_ext_def)
  show "x \<le> x" by (simp add: less_eq_stat_ext_def)
  show "x \<le> z" if "x \<le> y" and "y \<le> z" using that by (auto simp: less_eq_stat_ext_def)
  show "x = y" if "x \<le> y" and "y \<le> x" using that by (auto simp: less_eq_stat_ext_def)
qed

end

lemma stat_le_iff:
  "(a::stat) \<le> b \<longleftrightarrow>
     blocksFetched a \<le> blocksFetched b \<and> blocksProcessed a \<le> blocksProcessed b \<and>
     changesSaved a \<le> changesSaved b"
  by (simp add: less_eq_stat_ext_def)

text \<open>
  The positions of the three goroutines. A goroutine that has returned keeps
  the position that says through which \<^verbatim>\<open>return\<close> it left.
\<close>

datatype get_pc = GbStart | GbLoop | GbSend block | GbDone | GbLoadFailed

datatype proc_pc = PbRecv | PbSend "change list" | PbDone

datatype save_pc = ScOpen | ScRecv | ScDone | ScOpenFailed | ScSaveFailed

text \<open>
  \<^verbatim>\<open>reportStats\<close> reads the three counters one after the other, as the
  arguments of its log call and without synchronisation: between two reads the
  other goroutines may run. \<open>RsTick\<close> is the wait for the ticker, \<open>RsFetched f\<close>
  the position after \<^verbatim>\<open>blocksFetched\<close> was read as \<open>f\<close>, \<open>RsProcessed f p\<close> the
  position after \<^verbatim>\<open>blocksProcessed\<close> was read as \<open>p\<close>.
\<close>

datatype report_pc = RsTick | RsFetched nat | RsProcessed nat nat

datatype panic = ExtractPanic extract_error | IndexOutOfRange

text \<open>
  The fields of \<^verbatim>\<open>chainConverter\<close> and, after them, the local variables of the
  goroutines: \<open>gbTo\<close> and \<open>gbHt\<close> are \<^verbatim>\<open>toHeight\<close> and \<^verbatim>\<open>ht\<close> of \<^verbatim>\<open>getBlock\<close>,
  \<open>pbView\<close> is \<^verbatim>\<open>view\<close> of \<^verbatim>\<open>processBlock\<close>, \<open>scRepo\<close> is \<^verbatim>\<open>chainRepo\<close> of
  \<^verbatim>\<open>saveChanges\<close> (it has a meaning once the store is open). A panic of a
  goroutine ends the whole process; \<open>crashed\<close> records it. \<open>rsPc\<close> is the
  position of \<^verbatim>\<open>reportStats\<close> with the counters it has read, \<open>reports\<close> are
  the lines it has logged.
\<close>

record converter =
  blockChan :: "block chan"
  changesChan :: "change list chan"
  wg :: nat
  stats :: stat
  gbPc :: get_pc
  gbTo :: int32
  gbHt :: int32
  pbPc :: proc_pc
  pbView :: utxo_view
  scPc :: save_pc
  scRepo :: repo
  crashed :: "panic option"
  rsPc :: report_pc
  reports :: "stat list"

text \<open>
  What the goroutines read and do not change: the decoder, the block source,
  and what \<^verbatim>\<open>chainrepo.NewPebble\<close> returns (\<open>None\<close> for an error).
\<close>

record conv_env =
  envCodec :: codec
  envChain :: chain
  envStore :: "repo option"

section \<open>Construction and start\<close>

definition make_converter :: "nat \<Rightarrow> converter" where
  "make_converter n =
     \<lparr>blockChan = make_chan n, changesChan = make_chan n, wg = 0,
      stats = \<lparr>blocksFetched = 0, blocksProcessed = 0, changesSaved = 0\<rparr>,
      gbPc = GbStart, gbTo = 0, gbHt = 0,
      pbPc = PbRecv, pbView = NewUtxoViewpoint,
      scPc = ScOpen, scRepo = empty_repo,
      crashed = None, rsPc = RsTick, reports = []\<rparr>"

definition new_converter :: converter where
  "new_converter = make_converter 1000"

definition start :: "converter \<Rightarrow> converter" where
  "start cb = cb\<lparr>wg := wg cb + 3\<rparr>"

definition wait_returns :: "converter \<Rightarrow> bool" where
  "wait_returns cc \<longleftrightarrow> wg cc = 0"

section \<open>The goroutines\<close>

definition wg_done :: "converter \<Rightarrow> converter" where
  "wg_done s = s\<lparr>wg := wg s - 1\<rparr>"

definition fetch_limit :: "chain \<Rightarrow> int32" where
  "fetch_limit c = (if bestHeight c <s 200000 then bestHeight c else 200000)"

definition getBlock :: "conv_env \<Rightarrow> converter \<Rightarrow> converter option" where
  "getBlock env s =
     (case gbPc s of
        GbStart \<Rightarrow> Some (s\<lparr>gbTo := fetch_limit (envChain env), gbHt := 0, gbPc := GbLoop\<rparr>)
      | GbLoop \<Rightarrow>
          (if gbHt s <s gbTo s then
             (case BlockByHeight (envChain env) (gbHt s) of
                None \<Rightarrow>
                  Some (wg_done (s\<lparr>blockChan := close_chan (blockChan s), gbPc := GbLoadFailed\<rparr>))
              | Some b \<Rightarrow>
                  Some (s\<lparr>stats := (stats s)\<lparr>blocksFetched := blocksFetched (stats s) + 1\<rparr>,
                          gbPc := GbSend b\<rparr>))
           else Some (wg_done (s\<lparr>blockChan := close_chan (blockChan s), gbPc := GbDone\<rparr>)))
      | GbSend b \<Rightarrow>
          (if can_send (blockChan s)
           then Some (s\<lparr>blockChan := send b (blockChan s), gbHt := gbHt s + 1, gbPc := GbLoop\<rparr>)
           else None)
      | GbDone \<Rightarrow> None
      | GbLoadFailed \<Rightarrow> None)"

definition processBlock :: "conv_env \<Rightarrow> converter \<Rightarrow> converter option" where
  "processBlock env s =
     (case pbPc s of
        PbRecv \<Rightarrow>
          (case buf (blockChan s) of
             [] \<Rightarrow>
               (if closed (blockChan s)
                then Some (wg_done (s\<lparr>changesChan := close_chan (changesChan s), pbPc := PbDone\<rparr>))
                else None)
           | b # rest \<Rightarrow>
               (case extract_block (envCodec env) (pbView s) b of
                  Inl e \<Rightarrow>
                    Some (s\<lparr>blockChan := (blockChan s)\<lparr>buf := rest\<rparr>,
                            crashed := Some (ExtractPanic e)\<rparr>)
                | Inr (view', changes) \<Rightarrow>
                    Some (s\<lparr>blockChan := (blockChan s)\<lparr>buf := rest\<rparr>, pbView := view',
                            stats := (stats s)\<lparr>blocksProcessed := blocksProcessed (stats s) + 1\<rparr>,
                            pbPc := (if length changes \<noteq> 0 then PbSend changes else PbRecv)\<rparr>)))
      | PbSend changes \<Rightarrow>
          (if can_send (changesChan s)
           then Some (s\<lparr>changesChan := send changes (changesChan s), pbPc := PbRecv\<rparr>)
           else None)
      | PbDone \<Rightarrow> None)"

definition saveChanges :: "conv_env \<Rightarrow> converter \<Rightarrow> converter option" where
  "saveChanges env s =
     (case scPc s of
        ScOpen \<Rightarrow>
          (case envStore env of
             None \<Rightarrow> Some (wg_done (s\<lparr>scPc := ScOpenFailed\<rparr>))
           | Some r \<Rightarrow> Some (s\<lparr>scRepo := r, scPc := ScRecv\<rparr>))
      | ScRecv \<Rightarrow>
          (case buf (changesChan s) of
             [] \<Rightarrow> (if closed (changesChan s) then Some (wg_done (s\<lparr>scPc := ScDone\<rparr>)) else None)
           | changes # rest \<Rightarrow>
               (case changes of
                  [] \<Rightarrow>
                    Some (s\<lparr>changesChan := (changesChan s)\<lparr>buf := rest\<rparr>,
                            crashed := Some IndexOutOfRange\<rparr>)
                | chg # _ \<Rightarrow>
                    (case Save (scRepo s) (Height chg) changes of
                       Inl e \<Rightarrow>
                         Some (wg_done (s\<lparr>changesChan := (changesChan s)\<lparr>buf := rest\<rparr>,
                                          scPc := ScSaveFailed\<rparr>))
                     | Inr r \<Rightarrow>
                         Some (s\<lparr>changesChan := (changesChan s)\<lparr>buf := rest\<rparr>, scRepo := r,
                                 stats := (stats s)\<lparr>changesSaved := changesSaved (stats s) + 1\<rparr>\<rparr>))))
      | ScDone \<Rightarrow> None
      | ScOpenFailed \<Rightarrow> None
      | ScSaveFailed \<Rightarrow> None)"

definition reportStats :: "converter \<Rightarrow> converter option" where
  "reportStats s =
     (case rsPc s of
        RsTick \<Rightarrow> Some (s\<lparr>rsPc := RsFetched (blocksFetched (stats s))\<rparr>)
      | RsFetched f \<Rightarrow> Some (s\<lparr>rsPc := RsProcessed f (blocksProcessed (stats s))\<rparr>)
      | RsProcessed f p \<Rightarrow>
          Some (s\<lparr>rsPc := RsTick,
                  reports := reports s @
                    [\<lparr>blocksFetched = f, blocksProcessed = p,
                      changesSaved = changesSaved (stats s)\<rparr>]\<rparr>))"

section \<open>Schedules\<close>

datatype actor = GetBlock | ProcessBlock | SaveChanges | ReportStats

definition step :: "conv_env \<Rightarrow> actor \<Rightarrow> converter \<Rightarrow> converter option" where
  "step env a s =
     (if crashed s \<noteq> None then None
      else case a of
        GetBlock \<Rightarrow> getBlock env s
      | ProcessBlock \<Rightarrow> processBlock env s
      | SaveChanges \<Rightarrow> saveChanges env s
      | ReportStats \<Rightarrow> reportStats s)"

text \<open>
  Running a schedule: every goroutine named takes its step if it can and is
  passed over if it is blocked or has returned.
\<close>

fun run :: "conv_env \<Rightarrow> actor list \<Rightarrow> converter \<Rightarrow> converter" where
  "run env [] s = s"
| "run env (a # as) s = (case step env a s of None \<Rightarrow> run env as s | Some s' \<Rightarrow> run env as s')"

text \<open>
  The round-robin schedules over the three goroutines of the wait group.
\<close>

definition workers :: "actor list" where
  "workers = [GetBlock, ProcessBlock, SaveChanges]"

fun rounds :: "nat \<Rightarrow> actor list" where
  "rounds 0 = []"
| "rounds (Suc k) = workers @ rounds k"

inductive reachable :: "conv_env \<Rightarrow> nat \<Rightarrow> converter \<Rightarrow> bool" for env :: conv_env and n :: nat where
  reachable_start: "reachable env n (start (make_converter n))"
| reachable_step: "reachable env n s \<Longrightarrow> step env a s = Some s' \<Longrightarrow> reachable env n s'"

lemma run_append: "run env (as @ bs) s = run env bs (run env as s)"
  by (induction as arbitrary: s) (auto split: option.splits)

lemma reachable_run: "reachable env n s \<Longrightarrow> reachable env n (run env as s)"
  by (induction as arbitrary: s) (auto split: option.splits intro: reachable_step)

lemmas goroutine_defs [conv_defs] =
  getBlock_def processBlock_def saveChanges_def reportStats_def step_def wg_done_def
  fetch_limit_def make_converter_def new_converter_def start_def wait_returns_def

section \<open>The command\<close>

text \<open>
  The \<^verbatim>\<open>convert\<close> command (lines 218 to 250): it loads the block database and
  the chain, builds the converter with channels of capacity 1000, starts it
  and waits. \<^verbatim>\<open>start\<close> never fails, and a goroutine that fails only logs, so
  once the pipeline runs the command can only return success, die with a
  panic, or wait.
\<close>

datatype convert_error = ConvertLoadBlocksFailed | ConvertLoadChainFailed

record convert_world =
  cwBlocksDB :: bool
  cwChain :: "chain option"
  cwCodec :: codec
  cwStore :: "repo option"

datatype convert_outcome =
  ConvertFailed convert_error
  | Converted converter
  | Panicked panic
  | Waiting converter

definition convert_command :: "convert_world \<Rightarrow> actor list \<Rightarrow> convert_outcome" where
  "convert_command w schedule =
     (if \<not> cwBlocksDB w then ConvertFailed ConvertLoadBlocksFailed
      else case cwChain w of
        None \<Rightarrow> ConvertFailed ConvertLoadChainFailed
      | Some c \<Rightarrow>
          (let s = run \<lparr>envCodec = cwCodec w, envChain = c, envStore = cwStore w\<rparr> schedule
                     (start new_converter)
           in case crashed s of
                Some p \<Rightarrow> Panicked p
              | None \<Rightarrow> if wait_returns s then Converted s else Waiting s))"

section \<open>The transitions, one elimination rule per goroutine\<close>

lemma getBlockE [consumes 1, case_names gb_start gb_fetch gb_load_failed gb_finish gb_send]:
  assumes "getBlock env s = Some s'"
  obtains
    "gbPc s = GbStart"
      "s' = s\<lparr>gbTo := fetch_limit (envChain env), gbHt := 0, gbPc := GbLoop\<rparr>"
  | b where "gbPc s = GbLoop" "gbHt s <s gbTo s" "BlockByHeight (envChain env) (gbHt s) = Some b"
      "s' = s\<lparr>stats := (stats s)\<lparr>blocksFetched := blocksFetched (stats s) + 1\<rparr>, gbPc := GbSend b\<rparr>"
  | "gbPc s = GbLoop" "gbHt s <s gbTo s" "BlockByHeight (envChain env) (gbHt s) = None"
      "s' = wg_done (s\<lparr>blockChan := close_chan (blockChan s), gbPc := GbLoadFailed\<rparr>)"
  | "gbPc s = GbLoop" "\<not> gbHt s <s gbTo s"
      "s' = wg_done (s\<lparr>blockChan := close_chan (blockChan s), gbPc := GbDone\<rparr>)"
  | b where "gbPc s = GbSend b" "can_send (blockChan s)"
      "s' = s\<lparr>blockChan := send b (blockChan s), gbHt := gbHt s + 1, gbPc := GbLoop\<rparr>"
  using assms by (auto simp: getBlock_def split: get_pc.splits if_splits option.splits)

lemma processBlockE [consumes 1, case_names pb_close pb_panic pb_extract pb_send]:
  assumes "processBlock env s = Some s'"
  obtains
    "pbPc s = PbRecv" "buf (blockChan s) = []" "closed (blockChan s)"
      "s' = wg_done (s\<lparr>changesChan := close_chan (changesChan s), pbPc := PbDone\<rparr>)"
  | b rest e where "pbPc s = PbRecv" "buf (blockChan s) = b # rest"
      "extract_block (envCodec env) (pbView s) b = Inl e"
      "s' = s\<lparr>blockChan := (blockChan s)\<lparr>buf := rest\<rparr>, crashed := Some (ExtractPanic e)\<rparr>"
  | b rest view' changes where "pbPc s = PbRecv" "buf (blockChan s) = b # rest"
      "extract_block (envCodec env) (pbView s) b = Inr (view', changes)"
      "s' = s\<lparr>blockChan := (blockChan s)\<lparr>buf := rest\<rparr>, pbView := view',
               stats := (stats s)\<lparr>blocksProcessed := blocksProcessed (stats s) + 1\<rparr>,
               pbPc := (if length changes \<noteq> 0 then PbSend changes else PbRecv)\<rparr>"
  | changes where "pbPc s = PbSend changes" "can_send (changesChan s)"
      "s' = s\<lparr>changesChan := send changes (changesChan s), pbPc := PbRecv\<rparr>"
proof (cases "pbPc s")
  case PbRecv
  show ?thesis
  proof (cases "buf (blockChan s)")
    case Nil
    with assms PbRecv that(1) show ?thesis
      by (simp add: processBlock_def split: if_splits)
  next
    case (Cons b rest)
    show ?thesis
    proof (cases "extract_block (envCodec env) (pbView s) b")
      case (Inl e)
      with assms PbRecv Cons that(2) show ?thesis by (simp add: processBlock_def)
    next
      case (Inr r)
      with assms PbRecv Cons that(3) [of b rest "fst r" "snd r"] show ?thesis
        by (simp add: processBlock_def split_beta)
    qed
  qed
next
  case (PbSend changes)
  with assms that(4) show ?thesis by (simp add: processBlock_def split: if_splits)
next
  case PbDone
  with assms show ?thesis by (simp add: processBlock_def)
qed

lemma saveChangesE [consumes 1,
    case_names sc_open_failed sc_open sc_close sc_index_panic sc_save_failed sc_save]:
  assumes "saveChanges env s = Some s'"
  obtains
    "scPc s = ScOpen" "envStore env = None" "s' = wg_done (s\<lparr>scPc := ScOpenFailed\<rparr>)"
  | r where "scPc s = ScOpen" "envStore env = Some r" "s' = s\<lparr>scRepo := r, scPc := ScRecv\<rparr>"
  | "scPc s = ScRecv" "buf (changesChan s) = []" "closed (changesChan s)"
      "s' = wg_done (s\<lparr>scPc := ScDone\<rparr>)"
  | rest where "scPc s = ScRecv" "buf (changesChan s) = [] # rest"
      "s' = s\<lparr>changesChan := (changesChan s)\<lparr>buf := rest\<rparr>, crashed := Some IndexOutOfRange\<rparr>"
  | changes rest e where "scPc s = ScRecv" "buf (changesChan s) = changes # rest" "changes \<noteq> []"
      "Save (scRepo s) (Height (hd changes)) changes = Inl e"
      "s' = wg_done (s\<lparr>changesChan := (changesChan s)\<lparr>buf := rest\<rparr>, scPc := ScSaveFailed\<rparr>)"
  | changes rest r where "scPc s = ScRecv" "buf (changesChan s) = changes # rest" "changes \<noteq> []"
      "Save (scRepo s) (Height (hd changes)) changes = Inr r"
      "s' = s\<lparr>changesChan := (changesChan s)\<lparr>buf := rest\<rparr>, scRepo := r,
               stats := (stats s)\<lparr>changesSaved := changesSaved (stats s) + 1\<rparr>\<rparr>"
proof (cases "scPc s")
  case ScOpen
  with assms that(1,2) show ?thesis by (simp add: saveChanges_def split: option.splits)
next
  case ScRecv
  show ?thesis
  proof (cases "buf (changesChan s)")
    case Nil
    with assms ScRecv that(3) show ?thesis by (simp add: saveChanges_def split: if_splits)
  next
    case (Cons changes rest)
    show ?thesis
    proof (cases changes)
      case Nil
      with assms ScRecv Cons that(4) show ?thesis by (simp add: saveChanges_def)
    next
      case (Cons chg more)
      with assms ScRecv \<open>buf (changesChan s) = changes # rest\<close>
        that(5) [of changes rest] that(6) [of changes rest]
      show ?thesis by (simp add: saveChanges_def split: sum.splits)
    qed
  qed
qed (use assms in \<open>simp_all add: saveChanges_def\<close>)

lemma reportStats_enabled: "reportStats s \<noteq> None"
  by (simp add: reportStats_def split: report_pc.splits)

lemma reportStats_frame:
  assumes "reportStats s = Some s'"
  obtains pc rs where "s' = s\<lparr>rsPc := pc, reports := rs\<rparr>"
proof (cases "rsPc s")
  case (RsProcessed f p)
  with assms have "s' = s\<lparr>rsPc := RsTick,
      reports := reports s @ [\<lparr>blocksFetched = f, blocksProcessed = p,
                               changesSaved = changesSaved (stats s)\<rparr>]\<rparr>"
    by (simp add: reportStats_def)
  then show ?thesis by (rule that)
next
  case RsTick
  with assms have "s' = s\<lparr>rsPc := RsFetched (blocksFetched (stats s))\<rparr>"
    by (simp add: reportStats_def)
  also have "\<dots> = s\<lparr>rsPc := RsFetched (blocksFetched (stats s)), reports := reports s\<rparr>"
    by simp
  finally show ?thesis by (rule that)
next
  case (RsFetched f)
  with assms have "s' = s\<lparr>rsPc := RsProcessed f (blocksProcessed (stats s))\<rparr>"
    by (simp add: reportStats_def)
  also have "\<dots> = s\<lparr>rsPc := RsProcessed f (blocksProcessed (stats s)), reports := reports s\<rparr>"
    by simp
  finally show ?thesis by (rule that)
qed

lemma stepE [consumes 1, case_names get process save report]:
  assumes "step env a s = Some s'"
  obtains
    "crashed s = None" "a = GetBlock" "getBlock env s = Some s'"
  | "crashed s = None" "a = ProcessBlock" "processBlock env s = Some s'"
  | "crashed s = None" "a = SaveChanges" "saveChanges env s = Some s'"
  | pc rs where "crashed s = None" "a = ReportStats" "reportStats s = Some s'"
      "s' = s\<lparr>rsPc := pc, reports := rs\<rparr>"
  using assms by (auto simp: step_def split: if_splits actor.splits elim: reportStats_frame)

lemmas goroutineE = getBlockE processBlockE saveChangesE

lemma step_not_crashed: "step env a s = Some s' \<Longrightarrow> crashed s = None"
  by (auto simp: step_def split: if_splits)

section \<open>Channels, wait group and batches\<close>

text \<open>
  The invariant that makes the channel operations and \<^verbatim>\<open>changes[0]\<close> safe: the
  queues respect their capacity; a channel is closed exactly when its only
  sender has returned, so nothing is sent on a closed channel and no channel
  is closed twice; the wait group counts the goroutines that have not
  returned, so \<^verbatim>\<open>Done\<close> never makes it negative; every batch in flight is
  non-empty.
\<close>

definition gb_returned :: "get_pc \<Rightarrow> bool" where
  "gb_returned pc \<longleftrightarrow> pc = GbDone \<or> pc = GbLoadFailed"

definition sc_returned :: "save_pc \<Rightarrow> bool" where
  "sc_returned pc \<longleftrightarrow> pc = ScDone \<or> pc = ScOpenFailed \<or> pc = ScSaveFailed"

definition running :: "converter \<Rightarrow> nat" where
  "running s =
     (if gb_returned (gbPc s) then 0 else 1) + (if pbPc s = PbDone then 0 else 1) +
     (if sc_returned (scPc s) then 0 else 1)"

definition pending_batch :: "proc_pc \<Rightarrow> change list list" where
  "pending_batch pc = (case pc of PbSend changes \<Rightarrow> [changes] | _ \<Rightarrow> [])"

definition chan_inv :: "nat \<Rightarrow> converter \<Rightarrow> bool" where
  "chan_inv n s \<longleftrightarrow>
     cap (blockChan s) = n \<and> cap (changesChan s) = n \<and>
     length (buf (blockChan s)) \<le> n \<and> length (buf (changesChan s)) \<le> n \<and>
     closed (blockChan s) = gb_returned (gbPc s) \<and>
     closed (changesChan s) = (pbPc s = PbDone) \<and>
     (crashed s = None \<longrightarrow> wg s = running s) \<and>
     list_all (\<lambda>changes. changes \<noteq> []) (buf (changesChan s) @ pending_batch (pbPc s)) \<and>
     crashed s \<noteq> Some IndexOutOfRange"

lemmas pc_defs = gb_returned_def sc_returned_def running_def pending_batch_def

lemma chan_inv_start: "chan_inv n (start (make_converter n))"
  by (simp add: chan_inv_def conv_defs pc_defs)

lemma chan_inv_getBlock: "getBlock env s = Some s' \<Longrightarrow> chan_inv n s \<Longrightarrow> chan_inv n s'"
  by (erule getBlockE) (auto simp: chan_inv_def chan_defs wg_done_def pc_defs)

lemma chan_inv_processBlock: "processBlock env s = Some s' \<Longrightarrow> chan_inv n s \<Longrightarrow> chan_inv n s'"
  by (erule processBlockE) (auto simp: chan_inv_def chan_defs wg_done_def pc_defs)

lemma chan_inv_saveChanges: "saveChanges env s = Some s' \<Longrightarrow> chan_inv n s \<Longrightarrow> chan_inv n s'"
  by (erule saveChangesE) (auto simp: chan_inv_def chan_defs wg_done_def pc_defs)

lemma chan_inv_report: "chan_inv n s \<Longrightarrow> chan_inv n (s\<lparr>rsPc := pc, reports := r\<rparr>)"
  by (simp add: chan_inv_def pc_defs)

lemma chan_inv_step: "step env a s = Some s' \<Longrightarrow> chan_inv n s \<Longrightarrow> chan_inv n s'"
  by (erule stepE)
    (simp_all add: chan_inv_getBlock chan_inv_processBlock chan_inv_saveChanges chan_inv_report)

lemma reachable_chan_inv: "reachable env n s \<Longrightarrow> chan_inv n s"
  by (induction rule: reachable.induct) (auto intro: chan_inv_start chan_inv_step)

section \<open>What a panic leaves\<close>

text \<open>
  A panic of \<^verbatim>\<open>processBlock\<close> does not end the process at once: the goroutine
  first runs its deferred calls, which close the changes channel and decrement
  the wait group, and the other goroutines go on until the runtime exits.
  \<open>panic_deferred\<close> is the state they see then (the panic itself is no longer
  a field of it, it is what the relation says), \<open>dying\<close> are the states they
  can reach from it, and \<open>observable\<close> are the states the pipeline can be in at
  any moment, its last included.
\<close>

definition panic_deferred :: "converter \<Rightarrow> converter" where
  "panic_deferred s =
     wg_done (s\<lparr>changesChan := close_chan (changesChan s), pbPc := PbDone, crashed := None\<rparr>)"

inductive dying :: "conv_env \<Rightarrow> nat \<Rightarrow> converter \<Rightarrow> bool" for env :: conv_env and n :: nat where
  dying_panic: "reachable env n s \<Longrightarrow> crashed s = Some p \<Longrightarrow> dying env n (panic_deferred s)"
| dying_step: "dying env n s \<Longrightarrow> a \<noteq> ProcessBlock \<Longrightarrow> step env a s = Some s' \<Longrightarrow> dying env n s'"

definition observable :: "conv_env \<Rightarrow> nat \<Rightarrow> converter \<Rightarrow> bool" where
  "observable env n s \<longleftrightarrow> reachable env n s \<or> dying env n s"

lemma step_crash:
  assumes "step env a s = Some s'" and "crashed s' = Some p" and "p \<noteq> IndexOutOfRange"
  obtains rest where "a = ProcessBlock" and "pbPc s = PbRecv" and "crashed s = None"
    and "s' = s\<lparr>blockChan := (blockChan s)\<lparr>buf := rest\<rparr>, crashed := Some p\<rparr>"
  using assms(1)
proof (cases rule: stepE)
  case get
  from get(3) assms(2) get(1) show ?thesis by (cases rule: getBlockE) (auto simp: wg_done_def)
next
  case process
  from process(3) assms(2) process(1,2) that show ?thesis
    by (cases rule: processBlockE) (auto simp: wg_done_def)
next
  case save
  from save(3) assms(2,3) save(1) show ?thesis
    by (cases rule: saveChangesE) (auto simp: wg_done_def)
next
  case report
  with assms(2) show ?thesis by simp
qed

lemma crash_state:
  assumes "reachable env n s'" and "crashed s' = Some p"
  obtains s rest where "reachable env n s" and "crashed s = None" and "pbPc s = PbRecv"
    and "s' = s\<lparr>blockChan := (blockChan s)\<lparr>buf := rest\<rparr>, crashed := Some p\<rparr>"
  using assms(1)
proof (cases rule: reachable.cases)
  case reachable_start
  with assms(2) show ?thesis by (simp add: make_converter_def start_def)
next
  case (reachable_step s a)
  from reachable_chan_inv [OF assms(1)] assms(2) have "p \<noteq> IndexOutOfRange"
    by (auto simp: chan_inv_def)
  with reachable_step(2) assms(2) that [OF reachable_step(1)] show ?thesis
    by (auto elim: step_crash)
qed

lemma step_other:
  assumes "step env a s = Some s'" and "a \<noteq> ProcessBlock" and "chan_inv n s"
  shows "crashed s' = None \<and> pbPc s' = pbPc s"
  using assms(1)
proof (cases rule: stepE)
  case get
  from get(3,1) show ?thesis by (cases rule: getBlockE) (simp_all add: wg_done_def)
next
  case save
  from save(3,1) assms(3) show ?thesis
    by (cases rule: saveChangesE) (simp_all add: wg_done_def chan_inv_def)
qed (use assms(2) in simp_all)

lemma dying_inv: "dying env n s \<Longrightarrow> chan_inv n s \<and> crashed s = None \<and> pbPc s = PbDone"
proof (induction rule: dying.induct)
  case (dying_panic s p)
  from crash_state [OF dying_panic] obtain s0 rest where s0: "reachable env n s0"
    "crashed s0 = None" "pbPc s0 = PbRecv"
    "s = s0\<lparr>blockChan := (blockChan s0)\<lparr>buf := rest\<rparr>, crashed := Some p\<rparr>" .
  from reachable_chan_inv [OF s0(1)] s0(2,3) have "wg s0 = running s0" "pbPc s0 \<noteq> PbDone"
    by (simp_all add: chan_inv_def)
  with reachable_chan_inv [OF dying_panic(1)] s0(3,4) show ?case
    by (simp add: panic_deferred_def chan_inv_def wg_done_def pc_defs chan_defs)
next
  case (dying_step s a s')
  with step_other [OF dying_step(3,2), of n] chan_inv_step [OF dying_step(3), of n]
  show ?case by simp
qed

lemma dying_run:
  "dying env n s \<Longrightarrow> ProcessBlock \<notin> set as \<Longrightarrow> dying env n (run env as s)"
proof (induction as arbitrary: s)
  case (Cons a as)
  then have "a \<noteq> ProcessBlock" "ProcessBlock \<notin> set as" by auto
  with Cons.IH Cons.prems(1) show ?case
    by (auto split: option.splits intro: dying_step)
qed simp

lemma reachable_observable [intro, simp]: "reachable env n s \<Longrightarrow> observable env n s"
  by (simp add: observable_def)

lemma observable_chan_inv: "observable env n s \<Longrightarrow> chan_inv n s"
  by (auto simp: observable_def dest: reachable_chan_inv dying_inv)

section \<open>The scenario as an environment\<close>

definition example_env :: conv_env where
  "example_env = \<lparr>envCodec = toy_codec, envChain = example_chain, envStore = Some empty_repo\<rparr>"

definition longer_env :: conv_env where
  "longer_env = \<lparr>envCodec = toy_codec, envChain = longer_chain, envStore = Some empty_repo\<rparr>"

lemma rounds_numeral: "rounds (numeral k) = workers @ rounds (pred_numeral k)"
  by (simp add: numeral_eq_Suc)

definition longer_world :: convert_world where
  "longer_world =
     \<lparr>cwBlocksDB = True, cwChain = Some longer_chain, cwCodec = toy_codec,
      cwStore = Some empty_repo\<rparr>"

lemmas conv_eval =
  conv_defs eval_defs example_env_def longer_env_def example_chain_def longer_chain_def
  convert_command_def longer_world_def
  empty_repo_def BlockByHeight_def Save_def int32_eval workers_def rounds_numeral

section \<open>Properties\<close>

text \<open>
  C14: In every state the pipeline can be in, under any schedule and also
  while a panic of \<^verbatim>\<open>processBlock\<close> unwinds and the other goroutines go on, the
  two queues hold at most as many elements as the channels' capacity, each
  channel is closed exactly when its sender has returned (so nothing is sent
  on a closed channel and none is closed twice), the wait group counts the
  goroutines still running, and \<^verbatim>\<open>saveChanges\<close> never indexes an empty batch.
\<close>

theorem channels_safe:
  assumes "observable env n s"
  shows "length (buf (blockChan s)) \<le> n \<and> length (buf (changesChan s)) \<le> n \<and>
         closed (blockChan s) = gb_returned (gbPc s) \<and>
         closed (changesChan s) = (pbPc s = PbDone) \<and>
         (crashed s = None \<longrightarrow> wg s = running s) \<and>
         crashed s \<noteq> Some IndexOutOfRange"
  using observable_chan_inv [OF assms] by (simp add: chan_inv_def)

theorem channels_safe_witness:
  "length (buf (blockChan (run example_env (rounds 2) (start (make_converter 2))))) \<le> 2 \<and>
   wg (run example_env (rounds 2) (start (make_converter 2))) = 3"
proof -
  let ?s = "run example_env (rounds 2) (start (make_converter 2))"
  have "observable example_env 2 ?s" by (intro reachable_observable reachable_run reachable_start)
  from channels_safe [OF this] show ?thesis by (simp add: conv_eval pc_defs)
qed

end
