(* ===== verification/Conversion.thy ===== *)
theory Conversion
  imports Converter "HOL-Library.Sublist"
begin

text \<open>
  What the pipeline computes. The reference is a sequential scan: the blocks
  of the heights below the fetch limit, extracted one after the other over one
  view, every non-empty batch stored under the height of its first change.
  The invariants of this theory tie every reachable state of the pipeline to a
  prefix of that scan, with the three statistics counters as the positions of
  the three goroutines in it.
\<close>

section \<open>The sequential scan\<close>

definition fetched :: "chain \<Rightarrow> int32 \<Rightarrow> block list" where
  "fetched c ht = List.map_filter (BlockByHeight c) (heights 0 ht)"

fun blocks_ok :: "codec \<Rightarrow> utxo_view \<Rightarrow> block list \<Rightarrow> bool" where
  "blocks_ok x view [] = True"
| "blocks_ok x view (b # bs) =
     (txs_ok x view (Transactions b) \<and> blocks_ok x (register_all (Transactions b) view) bs)"

fun block_batches :: "codec \<Rightarrow> utxo_view \<Rightarrow> block list \<Rightarrow> change list list" where
  "block_batches x view [] = []"
| "block_batches x view (b # bs) =
     txs_changes x (blockHeight b) view (Transactions b) #
     block_batches x (register_all (Transactions b) view) bs"

definition ledger_view :: "block list \<Rightarrow> utxo_view \<Rightarrow> utxo_view" where
  "ledger_view bs view = fold (\<lambda>b. register_all (Transactions b)) bs view"

definition produced :: "codec \<Rightarrow> block list \<Rightarrow> change list list" where
  "produced x bs = filter (\<lambda>changes. changes \<noteq> []) (block_batches x NewUtxoViewpoint bs)"

definition store_batch :: "change list \<Rightarrow> repo \<Rightarrow> repo" where
  "store_batch changes r = r\<lparr>batches := (batches r)(Height (hd changes) \<mapsto> changes)\<rparr>"

definition convert_seq :: "codec \<Rightarrow> chain \<Rightarrow> repo \<Rightarrow> repo" where
  "convert_seq x c r = fold store_batch (produced x (fetched c (fetch_limit c))) r"

lemmas scan_defs = fetched_def ledger_view_def produced_def store_batch_def convert_seq_def

subsection \<open>Extending the scan by one block\<close>

lemma fetched_snoc:
  "0 \<le>s ht \<Longrightarrow> ht <s to \<Longrightarrow> BlockByHeight c ht = Some b \<Longrightarrow>
   fetched c (ht + 1) = fetched c ht @ [b]"
  by (simp add: fetched_def heights_snoc [of 0 ht to] List.map_filter_def)

lemma ledger_view_snoc [simp]:
  "ledger_view (bs @ [b]) view = register_all (Transactions b) (ledger_view bs view)"
  by (simp add: ledger_view_def)

lemma blocks_ok_snoc:
  "blocks_ok x view (bs @ [b]) \<longleftrightarrow>
     blocks_ok x view bs \<and> txs_ok x (ledger_view bs view) (Transactions b)"
  by (induction bs arbitrary: view) (auto simp: ledger_view_def)

lemma block_batches_snoc:
  "block_batches x view (bs @ [b]) =
     block_batches x view bs @ [txs_changes x (blockHeight b) (ledger_view bs view) (Transactions b)]"
  by (induction bs arbitrary: view) (auto simp: ledger_view_def)

lemma block_batches_append:
  "block_batches x view (xs @ ys) =
     block_batches x view xs @ block_batches x (ledger_view xs view) ys"
  by (induction xs arbitrary: view) (simp_all add: ledger_view_def)

lemma produced_snoc:
  "produced x (bs @ [b]) =
     produced x bs @
       filter (\<lambda>changes. changes \<noteq> [])
         [txs_changes x (blockHeight b) (ledger_view bs NewUtxoViewpoint) (Transactions b)]"
  by (simp add: produced_def block_batches_snoc)

lemma length_produced_le: "length (produced x bs) \<le> length bs"
proof -
  have "length (block_batches x view bs) = length bs" for view
    by (induction bs arbitrary: view) auto
  then show ?thesis
    using length_filter_le [of _ "block_batches x NewUtxoViewpoint bs"] by (simp add: produced_def)
qed

section \<open>Invariants of the pipeline\<close>

subsection \<open>Fetching\<close>

definition pending_block :: "get_pc \<Rightarrow> block list" where
  "pending_block pc = (case pc of GbSend b \<Rightarrow> [b] | _ \<Rightarrow> [])"

lemma pending_block_simps [simp]:
  "pending_block GbStart = []" "pending_block GbLoop = []" "pending_block (GbSend b) = [b]"
  "pending_block GbDone = []" "pending_block GbLoadFailed = []"
  by (simp_all add: pending_block_def)

definition fetch_ok :: "chain \<Rightarrow> get_pc \<Rightarrow> int32 \<Rightarrow> int32 \<Rightarrow> nat \<Rightarrow> bool" where
  "fetch_ok c pc to ht k \<longleftrightarrow>
     0 \<le>s ht \<and>
     list_all (\<lambda>h. BlockByHeight c h \<noteq> None) (heights 0 ht) \<and>
     (pc = GbStart \<longrightarrow> ht = 0) \<and>
     (pc \<noteq> GbStart \<longrightarrow> to = fetch_limit c \<and> (ht \<le>s to \<or> ht = 0)) \<and>
     (\<forall>b. pc = GbSend b \<longrightarrow> ht <s to \<and> BlockByHeight c ht = Some b) \<and>
     (pc = GbDone \<longrightarrow> \<not> ht <s to) \<and>
     (pc = GbLoadFailed \<longrightarrow> ht <s to \<and> BlockByHeight c ht = None) \<and>
     k = length (heights 0 ht) + length (pending_block pc)"

definition fetch_inv :: "conv_env \<Rightarrow> converter \<Rightarrow> bool" where
  "fetch_inv env s \<longleftrightarrow>
     fetch_ok (envChain env) (gbPc s) (gbTo s) (gbHt s) (blocksFetched (stats s))"

lemma fetch_ok_sendD:
  assumes "fetch_ok c (GbSend b) to ht k"
  shows "ht <s to" and "0 \<le>s ht" and "BlockByHeight c ht = Some b"
  using assms unfolding fetch_ok_def by blast+

lemma fetch_ok_send:
  assumes "fetch_ok c (GbSend b) to ht k"
  shows "fetch_ok c GbLoop to (ht + 1) k"
proof -
  note lt = fetch_ok_sendD(1) [OF assms] and ge = fetch_ok_sendD(2) [OF assms]
    and b = fetch_ok_sendD(3) [OF assms]
  from ge have "0 \<le>s ht + 1" by (simp add: word_sle_eq sless_sint_succ [OF lt])
  moreover have "ht + 1 \<le>s to" using lt by (rule sless_succ_sle)
  ultimately show ?thesis
    using assms b by (simp add: fetch_ok_def heights_snoc [OF ge lt])
qed

lemma fetch_inv_start: "fetch_inv env (start (make_converter n))"
  by (simp add: fetch_inv_def fetch_ok_def conv_defs word_sle_eq)

lemma fetch_inv_getBlock: "getBlock env s = Some s' \<Longrightarrow> fetch_inv env s \<Longrightarrow> fetch_inv env s'"
  by (erule getBlockE)
    (auto simp: fetch_inv_def wg_done_def fetch_ok_send, auto simp: fetch_ok_def word_sle_eq)

lemma fetch_inv_processBlock:
  "processBlock env s = Some s' \<Longrightarrow> fetch_inv env s \<Longrightarrow> fetch_inv env s'"
  by (erule processBlockE) (simp_all add: fetch_inv_def wg_done_def)

lemma fetch_inv_saveChanges:
  "saveChanges env s = Some s' \<Longrightarrow> fetch_inv env s \<Longrightarrow> fetch_inv env s'"
  by (erule saveChangesE) (simp_all add: fetch_inv_def wg_done_def)

lemma fetch_inv_step: "step env a s = Some s' \<Longrightarrow> fetch_inv env s \<Longrightarrow> fetch_inv env s'"
  by (erule stepE)
    (simp_all add: fetch_inv_getBlock fetch_inv_processBlock fetch_inv_saveChanges,
      simp add: fetch_inv_def)

lemma reachable_fetch_inv: "reachable env n s \<Longrightarrow> fetch_inv env s"
  by (induction rule: reachable.induct) (auto intro: fetch_inv_start fetch_inv_step)

lemma length_fetched:
  "list_all (\<lambda>h. BlockByHeight c h \<noteq> None) (heights 0 ht) \<Longrightarrow>
   length (fetched c ht) = length (heights 0 ht)"
  by (simp add: fetched_def List.map_filter_def list_all_iff)

subsection \<open>The flow through the two channels\<close>

text \<open>
  Three relations between the sequential scan and the pipeline. For the
  blocks: the block channel is the window of the fetched blocks behind the
  first \<open>p\<close>, which are fine and have led to the view. For the batches: the
  changes channel, with the batch about to be sent, is the window of the
  produced batches behind those taken. For the store: it is the initial store
  with the first \<open>k\<close> produced batches saved.
\<close>

definition blocks_flow :: "codec \<Rightarrow> block list \<Rightarrow> nat \<Rightarrow> block list \<Rightarrow> utxo_view \<Rightarrow> bool" where
  "blocks_flow x fs p bq view \<longleftrightarrow>
     window fs p bq \<and> blocks_ok x NewUtxoViewpoint (take p fs) \<and>
     view = ledger_view (take p fs) NewUtxoViewpoint"

definition store_open :: "save_pc \<Rightarrow> bool" where
  "store_open pc \<longleftrightarrow> pc = ScRecv \<or> pc = ScDone \<or> pc = ScSaveFailed"

definition store_flow :: "repo option \<Rightarrow> change list list \<Rightarrow> save_pc \<Rightarrow> nat \<Rightarrow> repo \<Rightarrow> bool" where
  "store_flow r0 made pc k r \<longleftrightarrow>
     (if store_open pc then map_option (fold store_batch (take k made)) r0 = Some r else k = 0)"

definition taken :: "save_pc \<Rightarrow> nat \<Rightarrow> nat" where
  "taken pc k = (if pc = ScSaveFailed then Suc k else k)"

lemma store_open_simps [simp]:
  "store_open ScRecv" "store_open ScDone" "store_open ScSaveFailed"
  "\<not> store_open ScOpen" "\<not> store_open ScOpenFailed"
  by (simp_all add: store_open_def)

lemma taken_simps [simp]:
  "taken ScOpen k = k" "taken ScRecv k = k" "taken ScDone k = k" "taken ScOpenFailed k = k"
  "taken ScSaveFailed k = Suc k"
  by (simp_all add: taken_def)

lemma taken_ge: "k \<le> taken pc k"
  by (simp add: taken_def)

lemma pending_batch_simps [simp]:
  "pending_batch PbRecv = []" "pending_batch (PbSend changes) = [changes]"
  "pending_batch PbDone = []"
  by (simp_all add: pending_batch_def)

lemma blocks_flow_fetch:
  assumes "blocks_flow x fs p bq view"
  shows "blocks_flow x (fs @ [b]) p (bq @ [b]) view"
proof -
  from assms have w: "window fs p bq" by (simp add: blocks_flow_def)
  with assms show ?thesis
    by (simp add: blocks_flow_def window_push window_take_push [OF w] del: take_append)
qed

lemma blocks_flow_extract:
  assumes "blocks_flow x fs p (b # bq) view" and "extract_block x view b = Inr (view', changes)"
  shows "blocks_flow x fs (Suc p) bq view'"
    and "produced x (take (Suc p) fs) =
           produced x (take p fs) @ filter (\<lambda>changes. changes \<noteq> []) [changes]"
proof -
  from assms(1) have w: "window fs p (b # bq)" and ok: "blocks_ok x NewUtxoViewpoint (take p fs)"
    and v: "view = ledger_view (take p fs) NewUtxoViewpoint"
    by (simp_all add: blocks_flow_def)
  from assms(2) have e: "txs_ok x view (Transactions b)"
    "view' = register_all (Transactions b) view"
    "changes = txs_changes x (blockHeight b) view (Transactions b)"
    by (simp_all add: extract_block_Inr_iff)
  from w ok v e show "blocks_flow x fs (Suc p) bq view'"
    by (simp add: blocks_flow_def window_pop [OF w] window_take_pop [OF w] blocks_ok_snoc)
  from v e show "produced x (take (Suc p) fs) =
      produced x (take p fs) @ filter (\<lambda>changes. changes \<noteq> []) [changes]"
    by (simp add: window_take_pop [OF w] produced_snoc)
qed

lemma store_flow_grow:
  "store_flow r0 made pc k r \<Longrightarrow> k \<le> length made \<Longrightarrow> store_flow r0 (made @ ys) pc k r"
  by (simp add: store_flow_def)

lemma store_flow_open: "store_flow (Some r) made ScOpen k r' \<Longrightarrow> store_flow (Some r) made ScRecv k r"
  by (simp add: store_flow_def)

lemma Save_store_batch: "Save r (Height (hd changes)) changes = Inr r' \<Longrightarrow> r' = store_batch changes r"
  by (auto simp: Save_def store_batch_def split: if_splits)

lemma store_flow_save:
  assumes "store_flow r0 made ScRecv k r" and "window made k (changes # q)"
    and "Save r (Height (hd changes)) changes = Inr r'"
  shows "store_flow r0 made ScRecv (Suc k) r'"
  using assms(1) Save_store_batch [OF assms(3)]
  by (auto simp: store_flow_def window_take_pop [OF assms(2)])

lemma store_flow_return:
  "store_flow r0 made ScRecv k r \<Longrightarrow> store_flow r0 made ScSaveFailed k r"
  "store_flow r0 made ScRecv k r \<Longrightarrow> store_flow r0 made ScDone k r"
  "store_flow r0 made ScOpen k r \<Longrightarrow> store_flow r0 made ScOpenFailed k r"
  by (simp_all add: store_flow_def)

definition made :: "conv_env \<Rightarrow> converter \<Rightarrow> change list list" where
  "made env s =
     produced (envCodec env)
       (take (blocksProcessed (stats s)) (fetched (envChain env) (gbHt s)))"

definition flow_inv :: "conv_env \<Rightarrow> converter \<Rightarrow> bool" where
  "flow_inv env s \<longleftrightarrow>
     (crashed s = None \<longrightarrow>
        blocks_flow (envCodec env) (fetched (envChain env) (gbHt s))
          (blocksProcessed (stats s)) (buf (blockChan s)) (pbView s) \<and>
        window (made env s) (taken (scPc s) (changesSaved (stats s)))
          (buf (changesChan s) @ pending_batch (pbPc s)) \<and>
        store_flow (envStore env) (made env s) (scPc s) (changesSaved (stats s)) (scRepo s))"

lemma flow_inv_start: "flow_inv env (start (make_converter n))"
  by (simp add: flow_inv_def made_def blocks_flow_def store_flow_def conv_defs window_def
      scan_defs List.map_filter_def)

lemma flow_inv_getBlock:
  assumes "getBlock env s = Some s'" and "fetch_inv env s" and "flow_inv env s"
  shows "flow_inv env s'"
  using assms(1)
proof (cases rule: getBlockE)
  case gb_start
  from assms(2) gb_start(1) have "gbHt s = 0" by (simp add: fetch_inv_def fetch_ok_def)
  with assms(3) gb_start(2) show ?thesis by (simp add: flow_inv_def made_def)
next
  case (gb_send b)
  let ?fs = "fetched (envChain env) (gbHt s)"
  from assms(2) gb_send(1) have
    f: "fetched (envChain env) (gbHt s + 1) = ?fs @ [b]"
    by (auto simp: fetch_inv_def fetch_ok_def intro: fetched_snoc)
  show ?thesis
  proof (cases "crashed s")
    case None
    with assms(3) have A: "blocks_flow (envCodec env) ?fs (blocksProcessed (stats s))
        (buf (blockChan s)) (pbView s)"
      by (simp add: flow_inv_def)
    then have w: "window ?fs (blocksProcessed (stats s)) (buf (blockChan s))"
      by (simp add: blocks_flow_def)
    from assms(3) None blocks_flow_fetch [OF A, of b] show ?thesis
      by (simp add: flow_inv_def made_def gb_send(3) f send_def window_take_push [OF w]
          del: take_append)
  next
    case (Some e)
    then show ?thesis by (simp add: flow_inv_def gb_send(3))
  qed
qed (use assms(3) in \<open>simp_all add: flow_inv_def made_def wg_done_def close_chan_def\<close>)


lemma flow_inv_processBlock:
  assumes "processBlock env s = Some s'" and "flow_inv env s"
  shows "flow_inv env s'"
  using assms(1)
proof (cases rule: processBlockE)
  case (pb_extract b rest view' changes)
  show ?thesis
  proof (cases "crashed s")
    case None
    let ?fs = "fetched (envChain env) (gbHt s)" and ?p = "blocksProcessed (stats s)"
    from assms(2) None pb_extract(1,2) have
      A: "blocks_flow (envCodec env) ?fs ?p (b # rest) (pbView s)" and
      B: "window (made env s) (taken (scPc s) (changesSaved (stats s))) (buf (changesChan s))" and
      C: "store_flow (envStore env) (made env s) (scPc s) (changesSaved (stats s)) (scRepo s)"
      by (simp_all add: flow_inv_def)
    note step = blocks_flow_extract [OF A pb_extract(3)]
    from B have "changesSaved (stats s) \<le> length (made env s)"
      using taken_ge [of "changesSaved (stats s)" "scPc s"] by (simp add: window_def)
    with step B C None show ?thesis
      by (simp add: flow_inv_def pb_extract(4) made_def window_push store_flow_grow)
  next
    case (Some e)
    then show ?thesis by (simp add: flow_inv_def pb_extract(4))
  qed
next
  case (pb_send changes)
  with assms(2) show ?thesis by (simp add: flow_inv_def made_def send_def)
qed (use assms(2) in \<open>simp_all add: flow_inv_def made_def wg_done_def close_chan_def\<close>)

lemma flow_inv_saveChanges:
  assumes "saveChanges env s = Some s'" and "flow_inv env s"
  shows "flow_inv env s'"
  using assms(1)
proof (cases rule: saveChangesE)
  case (sc_open r)
  with assms(2) show ?thesis
    by (auto simp: flow_inv_def made_def intro: store_flow_open)
next
  case (sc_save_failed changes rest e)
  with assms(2) show ?thesis
    by (auto simp: flow_inv_def made_def wg_done_def dest: window_pop intro: store_flow_return)
next
  case (sc_save changes rest r)
  with assms(2) show ?thesis
    by (auto simp: flow_inv_def made_def dest: window_pop intro: store_flow_save)
qed (use assms(2) in \<open>auto simp: flow_inv_def made_def wg_done_def intro: store_flow_return\<close>)

lemma flow_inv_step:
  "step env a s = Some s' \<Longrightarrow> fetch_inv env s \<Longrightarrow> flow_inv env s \<Longrightarrow> flow_inv env s'"
  by (erule stepE)
    (simp_all add: flow_inv_getBlock flow_inv_processBlock flow_inv_saveChanges,
      simp add: flow_inv_def made_def)

lemma reachable_flow_inv: "reachable env n s \<Longrightarrow> flow_inv env s"
  by (induction rule: reachable.induct)
    (auto intro: flow_inv_start flow_inv_step reachable_fetch_inv)

subsection \<open>Goroutines that have returned\<close>

text \<open>
  A consumer returns through the end of its loop only when its channel is
  closed and drained; \<^verbatim>\<open>saveChanges\<close> returns early only when the store failed.
\<close>

definition done_inv :: "conv_env \<Rightarrow> converter \<Rightarrow> bool" where
  "done_inv env s \<longleftrightarrow>
     (pbPc s = PbDone \<longrightarrow> buf (blockChan s) = [] \<and> closed (blockChan s)) \<and>
     (scPc s = ScDone \<longrightarrow> buf (changesChan s) = [] \<and> closed (changesChan s)) \<and>
     (scPc s = ScOpenFailed \<longrightarrow> envStore env = None) \<and>
     (scPc s = ScSaveFailed \<longrightarrow> (\<exists>h. saveFails (scRepo s) h))"

lemma done_inv_start: "done_inv env (start (make_converter n))"
  by (simp add: done_inv_def conv_defs)

lemma done_inv_getBlock:
  "getBlock env s = Some s' \<Longrightarrow> chan_inv n s \<Longrightarrow> done_inv env s \<Longrightarrow> done_inv env s'"
  by (erule getBlockE)
    (auto simp: done_inv_def chan_inv_def wg_done_def chan_defs gb_returned_def)

lemma done_inv_processBlock:
  "processBlock env s = Some s' \<Longrightarrow> chan_inv n s \<Longrightarrow> done_inv env s \<Longrightarrow> done_inv env s'"
  by (erule processBlockE) (auto simp: done_inv_def chan_inv_def wg_done_def chan_defs)

lemma done_inv_saveChanges:
  "saveChanges env s = Some s' \<Longrightarrow> done_inv env s \<Longrightarrow> done_inv env s'"
  by (erule saveChangesE) (auto simp: done_inv_def wg_done_def Save_def split: if_splits)

lemma done_inv_step:
  "step env a s = Some s' \<Longrightarrow> chan_inv n s \<Longrightarrow> done_inv env s \<Longrightarrow> done_inv env s'"
  by (erule stepE)
    (simp_all add: done_inv_getBlock done_inv_processBlock done_inv_saveChanges,
      simp add: done_inv_def)

lemma reachable_done_inv: "reachable env n s \<Longrightarrow> done_inv env s"
  by (induction rule: reachable.induct)
    (auto intro: done_inv_start done_inv_step reachable_chan_inv)

subsection \<open>The result\<close>

lemma saveFails_fold_store_batch [simp]: "saveFails (fold store_batch bs r) = saveFails r"
  by (induction bs arbitrary: r) (simp_all add: store_batch_def)

lemma fetch_ok_done_heights:
  assumes "fetch_ok c GbDone to ht k"
  shows "heights 0 ht = heights 0 (fetch_limit c)"
proof -
  from assms have "to = fetch_limit c" "\<not> ht <s to" "ht \<le>s to \<or> ht = 0"
    unfolding fetch_ok_def by blast+
  then show ?thesis
    using sint_eq_iff [of ht to] by (auto simp: word_sle_eq word_sless_alt)
qed

lemma fetch_ok_done:
  "fetch_ok c GbDone to ht k \<Longrightarrow> fetched c ht = fetched c (fetch_limit c)"
  by (simp add: fetched_def fetch_ok_done_heights)

lemma no_store_failure:
  assumes "reachable env n s" and "crashed s = None"
    and "envStore env = Some r" and "\<forall>h. \<not> saveFails r h"
  shows "scPc s \<noteq> ScOpenFailed \<and> scPc s \<noteq> ScSaveFailed"
proof -
  note fl = reachable_flow_inv [OF assms(1)] and dn = reachable_done_inv [OF assms(1)]
  from dn assms(3) have "scPc s \<noteq> ScOpenFailed" by (auto simp: done_inv_def)
  moreover have "scPc s \<noteq> ScSaveFailed"
  proof
    assume f: "scPc s = ScSaveFailed"
    with fl assms(2,3) have
      "scRepo s = fold store_batch (take (changesSaved (stats s)) (made env s)) r"
      by (auto simp: flow_inv_def store_flow_def)
    then have "saveFails (scRepo s) = saveFails r" by simp
    with dn f assms(4) show False by (simp add: done_inv_def)
  qed
  ultimately show ?thesis ..
qed

lemma no_load_failure:
  assumes "reachable env n s"
    and "list_all (\<lambda>h. BlockByHeight (envChain env) h \<noteq> None)
           (heights 0 (fetch_limit (envChain env)))"
  shows "gbPc s \<noteq> GbLoadFailed"
proof
  assume "gbPc s = GbLoadFailed"
  with reachable_fetch_inv [OF assms(1)] have
    "0 \<le>s gbHt s" "gbHt s <s fetch_limit (envChain env)"
    "BlockByHeight (envChain env) (gbHt s) = None"
    unfolding fetch_inv_def fetch_ok_def by auto
  with assms(2) show False by (auto simp: list_all_iff set_heights)
qed

subsection \<open>Panics\<close>

lemma blocks_ok_append:
  "blocks_ok x view (xs @ ys) \<longleftrightarrow>
     blocks_ok x view xs \<and> blocks_ok x (ledger_view xs view) ys"
  by (induction xs arbitrary: view) (auto simp: ledger_view_def)

lemma fetched_split:
  "0 \<le>s ht \<Longrightarrow> ht \<le>s to \<Longrightarrow> fetched c to = fetched c ht @ List.map_filter (BlockByHeight c) (heights ht to)"
  by (simp add: fetched_def heights_split [of 0 ht to] List.map_filter_def)

definition crash_inv :: "conv_env \<Rightarrow> converter \<Rightarrow> bool" where
  "crash_inv env s \<longleftrightarrow>
     (\<forall>e. crashed s = Some (ExtractPanic e) \<longrightarrow>
        \<not> blocks_ok (envCodec env) NewUtxoViewpoint (fetched (envChain env) (gbHt s)))"

lemma crash_inv_processBlock:
  assumes "processBlock env s = Some s'" and "flow_inv env s" and "crashed s = None"
  shows "crash_inv env s'"
  using assms(1)
proof (cases rule: processBlockE)
  case (pb_panic b rest e)
  let ?fs = "fetched (envChain env) (gbHt s)" and ?p = "blocksProcessed (stats s)"
  from assms(2,3) pb_panic(2) have
    A: "blocks_flow (envCodec env) ?fs ?p (b # rest) (pbView s)"
    by (simp add: flow_inv_def)
  then have w: "window ?fs ?p (b # rest)"
    and v: "pbView s = ledger_view (take ?p ?fs) NewUtxoViewpoint"
    by (simp_all add: blocks_flow_def)
  from pb_panic(3) have "\<not> txs_ok (envCodec env) (pbView s) (Transactions b)"
    using extract_block_ok [of "envCodec env" "pbView s" b] by auto
  with v have "\<not> blocks_ok (envCodec env) NewUtxoViewpoint (take (Suc ?p) ?fs)"
    by (simp add: window_take_pop [OF w] blocks_ok_snoc)
  then have "\<not> blocks_ok (envCodec env) NewUtxoViewpoint ?fs"
    using blocks_ok_append [of "envCodec env" NewUtxoViewpoint "take (Suc ?p) ?fs" "drop (Suc ?p) ?fs"]
    by simp
  then show ?thesis by (simp add: crash_inv_def pb_panic(4))
qed (use assms(3) in \<open>simp_all add: crash_inv_def wg_done_def\<close>)

lemma crash_inv_step:
  assumes "step env a s = Some s'" and "flow_inv env s"
  shows "crash_inv env s'"
  using assms(1)
proof (cases rule: stepE)
  case get
  then show ?thesis by (elim getBlockE) (simp_all add: crash_inv_def wg_done_def)
next
  case process
  with assms(2) show ?thesis by (simp add: crash_inv_processBlock)
next
  case save
  then show ?thesis by (elim saveChangesE) (simp_all add: crash_inv_def wg_done_def)
next
  case report
  then show ?thesis by (simp add: crash_inv_def)
qed

lemma reachable_crash_inv:
  assumes "reachable env n s"
  shows "crash_inv env s"
  using assms
proof (cases rule: reachable.cases)
  case reachable_start
  then show ?thesis by (simp add: crash_inv_def conv_defs)
next
  case (reachable_step t a)
  then show ?thesis by (auto intro: crash_inv_step reachable_flow_inv)
qed

section \<open>What the scan stores\<close>

lemma batches_store_batch:
  "batches (store_batch changes r) h = (if h = Height (hd changes) then Some changes else batches r h)"
  by (simp add: store_batch_def)

lemma fold_store_batch_other:
  "list_all (\<lambda>changes. Height (hd changes) \<noteq> h) bs \<Longrightarrow>
   batches (fold store_batch bs r) h = batches r h"
  by (induction bs arbitrary: r) (auto simp: batches_store_batch)

lemma block_batches_keys:
  "list_all (\<lambda>changes. changes \<noteq> [] \<longrightarrow> Height (hd changes) \<in> blockHeight ` set bs)
     (block_batches x view bs)"
proof (induction bs arbitrary: view)
  case (Cons b bs)
  have "Height (hd changes) = blockHeight b"
    if "changes = txs_changes x (blockHeight b) view (Transactions b)" "changes \<noteq> []" for changes
    using that list_all_hd [OF txs_changes_Height [of "blockHeight b" x view "Transactions b"]]
    by simp
  moreover from Cons [of "register_all (Transactions b) view"] have
    "list_all (\<lambda>changes. changes \<noteq> [] \<longrightarrow> Height (hd changes) \<in> blockHeight ` set (b # bs))
       (block_batches x (register_all (Transactions b) view) bs)"
    by (auto simp: list_all_iff)
  ultimately show ?case by simp
qed simp

lemma fetched_heights:
  assumes "wf_chain c" and "to \<le>s bestHeight c"
  shows "blockHeight ` set (fetched c to) \<subseteq> {h. 0 \<le>s h \<and> h <s to}"
proof -
  have "blockHeight b = h" if "h \<in> set (heights 0 to)" "BlockByHeight c h = Some b" for h b
  proof -
    from that(1) assms(2) have "0 \<le>s h" "h \<le>s bestHeight c"
      by (auto simp: set_heights word_sle_eq word_sless_alt)
    with assms(1) that(2) show ?thesis by (auto simp: wf_chain_def)
  qed
  then show ?thesis
    by (auto simp: fetched_def List.map_filter_def set_heights)
qed

lemma fetch_limit_le_best: "fetch_limit c \<le>s bestHeight c"
  by (simp add: fetch_limit_def word_sle_eq word_sless_alt)

lemma batches_keys_other:
  assumes "h \<notin> blockHeight ` set bs"
  shows "list_all (\<lambda>changes. Height (hd changes) \<noteq> h)
           (filter (\<lambda>changes. changes \<noteq> []) (block_batches x view bs))"
  using block_batches_keys [of bs x view] assms by (auto simp: list_all_iff)

lemma outside_untouched:
  assumes "wf_chain c" and "\<not> (0 \<le>s h \<and> h <s fetch_limit c)"
  shows "batches (convert_seq x c r) h = batches r h"
proof -
  from fetched_heights [OF assms(1) fetch_limit_le_best] assms(2)
  have "h \<notin> blockHeight ` set (fetched c (fetch_limit c))" by auto
  then have "list_all (\<lambda>changes. Height (hd changes) \<noteq> h)
      (produced x (fetched c (fetch_limit c)))"
    unfolding produced_def by (rule batches_keys_other)
  then show ?thesis by (simp add: convert_seq_def fold_store_batch_other)
qed

section \<open>The store at every state\<close>

text \<open>
  The reference for a conversion that has not ended, or that never will: the
  sequential scan stopped after its first \<open>k\<close> non-empty batches. The whole
  scan is the case of \<open>k\<close> at least the number of its batches, and the scan
  can be taken up again where it stopped.
\<close>

definition scan_prefix :: "codec \<Rightarrow> chain \<Rightarrow> nat \<Rightarrow> repo \<Rightarrow> repo" where
  "scan_prefix x c k r = fold store_batch (take k (produced x (fetched c (fetch_limit c)))) r"

lemma scan_prefix_all:
  "length (produced x (fetched c (fetch_limit c))) \<le> k \<Longrightarrow> scan_prefix x c k r = convert_seq x c r"
  by (simp add: scan_prefix_def convert_seq_def)

lemma scan_prefix_rest:
  "fold store_batch (drop k (produced x (fetched c (fetch_limit c)))) (scan_prefix x c k r) =
     convert_seq x c r"
proof -
  let ?ps = "produced x (fetched c (fetch_limit c))"
  have "fold store_batch (take k ?ps @ drop k ?ps) r = convert_seq x c r"
    by (simp add: convert_seq_def)
  then show ?thesis by (simp add: scan_prefix_def del: append_take_drop_id)
qed

lemma take_prefix: "prefix xs ys \<Longrightarrow> k \<le> length xs \<Longrightarrow> take k xs = take k ys"
  by (auto simp: prefix_def)

lemma taken_le_made:
  assumes "flow_inv env s" and "crashed s = None"
  shows "taken (scPc s) (changesSaved (stats s)) \<le> length (made env s)"
  using assms by (auto simp: flow_inv_def dest: window_length)

lemma prefix_produced: "prefix xs ys \<Longrightarrow> prefix (produced x xs) (produced x ys)"
  by (auto simp: prefix_def produced_def block_batches_append)

lemma prefix_fetched:
  assumes "fetch_inv env s"
  shows "prefix (fetched (envChain env) (gbHt s))
           (fetched (envChain env) (fetch_limit (envChain env)))"
proof -
  from assms have "0 \<le>s gbHt s" "gbHt s \<le>s fetch_limit (envChain env) \<or> gbHt s = 0"
    unfolding fetch_inv_def fetch_ok_def by (auto simp: word_sle_eq)
  then show ?thesis
    using fetched_split [of "gbHt s" "fetch_limit (envChain env)" "envChain env"]
    by (auto simp: fetched_def List.map_filter_def)
qed

lemma prefix_made:
  assumes "fetch_inv env s"
  shows "prefix (made env s)
           (produced (envCodec env) (fetched (envChain env) (fetch_limit (envChain env))))"
  unfolding made_def
  by (intro prefix_produced prefix_order.trans [OF take_is_prefix prefix_fetched [OF assms]])


text \<open>
  The part of the flow that does not depend on \<^verbatim>\<open>processBlock\<close> being alive,
  and so holds of every observable state: the batches in flight are a window
  of those made, and the store holds the first of them.
\<close>

definition store_inv :: "conv_env \<Rightarrow> converter \<Rightarrow> bool" where
  "store_inv env s \<longleftrightarrow>
     blocksProcessed (stats s) \<le> length (fetched (envChain env) (gbHt s)) \<and>
     window (made env s) (taken (scPc s) (changesSaved (stats s)))
       (buf (changesChan s) @ pending_batch (pbPc s)) \<and>
     store_flow (envStore env) (made env s) (scPc s) (changesSaved (stats s)) (scRepo s)"

lemma flow_store_inv: "flow_inv env s \<Longrightarrow> crashed s = None \<Longrightarrow> store_inv env s"
  by (simp add: flow_inv_def store_inv_def blocks_flow_def window_def)

lemma reachable_store_inv:
  assumes "reachable env n s"
  shows "store_inv env s"
proof (cases "crashed s")
  case None
  with reachable_flow_inv [OF assms] show ?thesis by (rule flow_store_inv)
next
  case (Some p)
  from crash_state [OF assms Some] obtain s0 rest where s0: "reachable env n s0"
    "crashed s0 = None"
    "s = s0\<lparr>blockChan := (blockChan s0)\<lparr>buf := rest\<rparr>, crashed := Some p\<rparr>"
    by blast
  from flow_store_inv [OF reachable_flow_inv [OF s0(1)] s0(2)] s0(3) show ?thesis
    by (simp add: store_inv_def made_def)
qed

lemma store_inv_getBlock:
  assumes "getBlock env s = Some s'" and "fetch_inv env s" and "store_inv env s"
  shows "store_inv env s'"
  using assms(1)
proof (cases rule: getBlockE)
  case gb_start
  from assms(2) gb_start(1) have "gbHt s = 0" by (simp add: fetch_inv_def fetch_ok_def)
  with assms(3) gb_start(2) show ?thesis by (simp add: store_inv_def made_def)
next
  case (gb_send b)
  from assms(2) gb_send(1) have
    "fetched (envChain env) (gbHt s + 1) = fetched (envChain env) (gbHt s) @ [b]"
    by (auto simp: fetch_inv_def fetch_ok_def intro: fetched_snoc)
  with assms(3) show ?thesis by (simp add: store_inv_def made_def gb_send(3))
qed (use assms(3) in \<open>simp_all add: store_inv_def made_def wg_done_def\<close>)

lemma store_inv_saveChanges:
  assumes "saveChanges env s = Some s'" and "chan_inv n s" and "store_inv env s"
  shows "store_inv env s'"
  using assms(1)
proof (cases rule: saveChangesE)
  case (sc_open r)
  with assms(3) show ?thesis by (auto simp: store_inv_def made_def intro: store_flow_open)
next
  case (sc_index_panic rest)
  with assms(2) show ?thesis by (simp add: chan_inv_def)
next
  case (sc_save_failed changes rest e)
  with assms(3) show ?thesis
    by (auto simp: store_inv_def made_def wg_done_def dest: window_pop intro: store_flow_return)
next
  case (sc_save changes rest r)
  with assms(3) show ?thesis
    by (auto simp: store_inv_def made_def dest: window_pop intro: store_flow_save)
qed (use assms(3) in \<open>auto simp: store_inv_def made_def wg_done_def intro: store_flow_return\<close>)

lemma dying_flow: "dying env n s \<Longrightarrow> fetch_inv env s \<and> store_inv env s"
proof (induction rule: dying.induct)
  case (dying_panic s p)
  from crash_state [OF dying_panic] obtain s0 rest where "pbPc s0 = PbRecv"
    "s = s0\<lparr>blockChan := (blockChan s0)\<lparr>buf := rest\<rparr>, crashed := Some p\<rparr>"
    by blast
  then have "pbPc s = PbRecv" by simp
  with reachable_fetch_inv [OF dying_panic(1)] reachable_store_inv [OF dying_panic(1)]
  show ?case
    by (simp add: panic_deferred_def wg_done_def close_chan_def fetch_inv_def store_inv_def
        made_def)
next
  case (dying_step s a s')
  note inv = dying_inv [OF dying_step(1)]
  from dying_step(3) have "store_inv env s'"
  proof (cases rule: stepE)
    case get
    with dying_step.IH show ?thesis by (auto intro: store_inv_getBlock)
  next
    case save
    with dying_step.IH inv show ?thesis by (auto intro: store_inv_saveChanges)
  next
    case (report pc rs)
    with dying_step.IH show ?thesis by (simp add: store_inv_def made_def)
  qed (use dying_step(2) in simp)
  with fetch_inv_step [OF dying_step(3)] dying_step.IH show ?case by simp
qed

lemma observable_flow: "observable env n s \<Longrightarrow> fetch_inv env s \<and> store_inv env s"
  by (auto simp: observable_def dest: reachable_fetch_inv reachable_store_inv dying_flow)

lemma store_prefix:
  assumes "observable env n s" and "envStore env = Some r" and "store_open (scPc s)"
  shows "scRepo s = scan_prefix (envCodec env) (envChain env) (changesSaved (stats s)) r \<and>
         changesSaved (stats s) \<le>
           length (produced (envCodec env) (fetched (envChain env) (fetch_limit (envChain env))))"
proof -
  from observable_flow [OF assms(1)] have fe: "fetch_inv env s" and st: "store_inv env s"
    by simp_all
  note pm = prefix_made [OF fe]
  from st taken_ge [of "changesSaved (stats s)" "scPc s"]
  have k: "changesSaved (stats s) \<le> length (made env s)"
    by (auto simp: store_inv_def dest: window_length)
  from st assms(2,3) have
    "scRepo s = fold store_batch (take (changesSaved (stats s)) (made env s)) r"
    by (simp add: store_inv_def store_flow_def)
  with take_prefix [OF pm k] k prefix_length_le [OF pm] show ?thesis
    by (simp add: scan_prefix_def)
qed

text \<open>
  The pipeline simulates the scan: with the store open, a step of any
  goroutine either leaves the store and its counter as they are, or saves the
  next batch of the scan and counts it.
\<close>

lemma scan_prefix_Suc:
  "k < length (produced x (fetched c (fetch_limit c))) \<Longrightarrow>
   scan_prefix x c (Suc k) r =
     store_batch (produced x (fetched c (fetch_limit c)) ! k) (scan_prefix x c k r)"
  by (simp add: scan_prefix_def take_Suc_conv_app_nth)

lemma step_saved:
  assumes "step env a s = Some s'" and "store_open (scPc s)"
  shows "store_open (scPc s') \<and>
         (changesSaved (stats s') = changesSaved (stats s) \<and> scRepo s' = scRepo s \<or>
          changesSaved (stats s') = Suc (changesSaved (stats s)))"
  using assms(1)
proof (cases rule: stepE)
  case get
  from get(3) assms(2) show ?thesis by (cases rule: getBlockE) (auto simp: wg_done_def)
next
  case process
  from process(3) assms(2) show ?thesis by (cases rule: processBlockE) (auto simp: wg_done_def)
next
  case save
  from save(3) assms(2) show ?thesis by (cases rule: saveChangesE) (auto simp: wg_done_def)
next
  case report
  with assms(2) show ?thesis by simp
qed

lemma scan_simulation:
  assumes "reachable env n s" and "step env a s = Some s'"
    and "envStore env = Some r" and "store_open (scPc s)"
  shows "changesSaved (stats s') = changesSaved (stats s) \<and> scRepo s' = scRepo s \<or>
         changesSaved (stats s') = Suc (changesSaved (stats s)) \<and>
         scRepo s' =
           store_batch
             (produced (envCodec env) (fetched (envChain env) (fetch_limit (envChain env))) !
                changesSaved (stats s))
             (scRepo s)"
proof -
  note st = step_saved [OF assms(2,4)]
  note s = store_prefix [OF reachable_observable [OF assms(1)] assms(3,4)]
    and s' = store_prefix [OF reachable_observable [OF reachable_step [OF assms(1,2)]] assms(3)
      st [THEN conjunct1]]
  from st s s' show ?thesis by (auto simp: scan_prefix_Suc)
qed

section \<open>The final state\<close>

definition all_returned :: "converter \<Rightarrow> bool" where
  "all_returned s \<longleftrightarrow> gb_returned (gbPc s) \<and> pbPc s = PbDone \<and> sc_returned (scPc s)"

lemma wait_returns_iff:
  assumes "chan_inv n s" and "crashed s = None"
  shows "wait_returns s \<longleftrightarrow> all_returned s"
  using assms
  by (auto simp: chan_inv_def wait_returns_def running_def all_returned_def split: if_splits)

lemma final_made:
  assumes "reachable env n s" and "crashed s = None"
    and "gbPc s = GbDone" and "pbPc s = PbDone" and "scPc s = ScDone"
  shows "take (changesSaved (stats s)) (made env s) =
           produced (envCodec env) (fetched (envChain env) (fetch_limit (envChain env)))"
proof -
  note fe = reachable_fetch_inv [OF assms(1)]
    and fl = reachable_flow_inv [OF assms(1)] and dn = reachable_done_inv [OF assms(1)]
  let ?fs = "fetched (envChain env) (gbHt s)"
  from fl assms(2) have
    A: "blocks_flow (envCodec env) ?fs (blocksProcessed (stats s)) (buf (blockChan s)) (pbView s)"
    and B: "window (made env s) (taken (scPc s) (changesSaved (stats s)))
        (buf (changesChan s) @ pending_batch (pbPc s))"
    by (simp_all add: flow_inv_def)
  from fe assms(3) have fs: "?fs = fetched (envChain env) (fetch_limit (envChain env))"
    by (simp add: fetch_inv_def fetch_ok_done)
  from dn assms(4,5) have "buf (blockChan s) = []" "buf (changesChan s) = []"
    by (simp_all add: done_inv_def)
  with A B assms(4,5) have "take (blocksProcessed (stats s)) ?fs = ?fs"
    "take (changesSaved (stats s)) (made env s) = made env s"
    by (simp_all add: blocks_flow_def window_empty)
  with fs show ?thesis by (simp add: made_def)
qed

lemma final_store:
  assumes "reachable env n s" and "all_returned s" and "crashed s = None"
    and "envStore env = Some r" and "\<forall>h. \<not> saveFails r h"
    and "list_all (\<lambda>h. BlockByHeight (envChain env) h \<noteq> None)
           (heights 0 (fetch_limit (envChain env)))"
  shows "scRepo s = convert_seq (envCodec env) (envChain env) r"
proof -
  from assms(2) have
    ret: "gb_returned (gbPc s)" "pbPc s = PbDone" "sc_returned (scPc s)"
    by (simp_all add: all_returned_def)
  from no_store_failure [OF assms(1,3,4,5)] ret(3) have sc: "scPc s = ScDone"
    by (simp add: sc_returned_def)
  from no_load_failure [OF assms(1,6)] ret(1) have gb: "gbPc s = GbDone"
    by (simp add: gb_returned_def)
  from reachable_flow_inv [OF assms(1)] assms(3) have
    "store_flow (envStore env) (made env s) (scPc s) (changesSaved (stats s)) (scRepo s)"
    by (simp add: flow_inv_def)
  with final_made [OF assms(1,3) gb ret(2) sc] sc assms(4) show ?thesis
    by (simp add: store_flow_def convert_seq_def)
qed

lemma panic_needs_bad_block:
  assumes "reachable env n s" and "crashed s = Some p"
  shows "\<not> blocks_ok (envCodec env) NewUtxoViewpoint
           (fetched (envChain env) (fetch_limit (envChain env)))"
proof
  assume ok: "blocks_ok (envCodec env) NewUtxoViewpoint
      (fetched (envChain env) (fetch_limit (envChain env)))"
  from reachable_chan_inv [OF assms(1)] assms(2) obtain e where e: "p = ExtractPanic e"
    by (cases p) (auto simp: chan_inv_def)
  from prefix_fetched [OF reachable_fetch_inv [OF assms(1)]] have
    "\<exists>more. fetched (envChain env) (fetch_limit (envChain env)) =
      fetched (envChain env) (gbHt s) @ more"
    by (auto simp: prefix_def)
  with ok have "blocks_ok (envCodec env) NewUtxoViewpoint (fetched (envChain env) (gbHt s))"
    by (auto simp: blocks_ok_append)
  with reachable_crash_inv [OF assms(1)] assms(2) e show False by (simp add: crash_inv_def)
qed

section \<open>Properties\<close>

lemmas scan_eval = scan_defs List.map_filter_def heights.simps register_all_def

lemma example_complete:
  "list_all (\<lambda>h. BlockByHeight (envChain example_env) h \<noteq> None)
     (heights 0 (fetch_limit (envChain example_env)))"
  by (simp add: conv_eval heights.simps)

text \<open>
  C1: The pipeline computes the sequential scan. When \<^verbatim>\<open>wait\<close> returns in a
  state reached by any schedule, no goroutine has panicked, the store was
  opened and none of its saves fails, and every height below the fetch limit
  has a block, then the store holds exactly what the sequential converter
  stores: the non-empty batches of the blocks of the heights 0 up to the limit
  (the limit excluded), extracted in height order over one view, each saved
  under the height of its first change.
\<close>

theorem convert_correct:
  assumes "reachable env n s" and "wait_returns s" and "crashed s = None"
    and "envStore env = Some r" and "\<forall>h. \<not> saveFails r h"
    and "list_all (\<lambda>h. BlockByHeight (envChain env) h \<noteq> None)
           (heights 0 (fetch_limit (envChain env)))"
  shows "scRepo s = convert_seq (envCodec env) (envChain env) r"
  using assms wait_returns_iff [OF reachable_chan_inv [OF assms(1)] assms(3)]
  by (intro final_store [OF assms(1) _ assms(3)]) simp_all

theorem convert_correct_witness:
  "scRepo (run example_env (rounds 9) (start (make_converter 2))) =
     convert_seq toy_codec example_chain empty_repo"
proof -
  let ?s = "run example_env (rounds 9) (start (make_converter 2))"
  have "reachable example_env 2 ?s" by (intro reachable_run reachable_start)
  moreover have "wait_returns ?s" "crashed ?s = None" by (simp_all add: conv_eval)
  moreover have "envStore example_env = Some empty_repo" "\<forall>h. \<not> saveFails empty_repo h"
    by (simp_all add: example_env_def empty_repo_def)
  ultimately have "scRepo ?s = convert_seq (envCodec example_env) (envChain example_env) empty_repo"
    using example_complete by (rule convert_correct)
  then show ?thesis by (simp add: example_env_def)
qed

text \<open>
  C6: At every moment the store is a prefix of the sequential scan. In every
  state the pipeline can be in once \<^verbatim>\<open>saveChanges\<close> has opened the store,
  whether it is running, has ended, has stopped at a failed save, or is dying
  of a panic of \<^verbatim>\<open>processBlock\<close> while \<^verbatim>\<open>saveChanges\<close> still saves the batches
  in flight, the store is the initial store with the first \<^verbatim>\<open>changesSaved\<close>
  non-empty batches of the sequential scan saved, in the order of the scan,
  and \<^verbatim>\<open>changesSaved\<close> is at most the number of those batches: a conversion
  that is interrupted leaves a log that a complete conversion would also have
  passed through.
\<close>

theorem store_is_scan_prefix:
  assumes "observable env n s" and "envStore env = Some r" and "store_open (scPc s)"
  shows "scRepo s = scan_prefix (envCodec env) (envChain env) (changesSaved (stats s)) r \<and>
         changesSaved (stats s) \<le>
           length (produced (envCodec env) (fetched (envChain env) (fetch_limit (envChain env))))"
  using assms by (rule store_prefix)

definition broken_env :: conv_env where
  "broken_env = example_env\<lparr>envChain :=
     example_chain\<lparr>blockAt := (blockAt example_chain)(2 \<mapsto> block2\<lparr>Transactions := [tx3]\<rparr>)\<rparr>\<rparr>"

definition panic_schedule :: "actor list" where
  "panic_schedule =
     [SaveChanges, GetBlock, GetBlock, GetBlock, ProcessBlock, GetBlock, GetBlock, ProcessBlock,
      ProcessBlock, GetBlock, GetBlock, ProcessBlock]"

theorem store_is_scan_prefix_witness:
  "scRepo (run example_env (rounds 6) (start (make_converter 2))) =
     scan_prefix toy_codec example_chain 1 empty_repo \<and>
   crashed (run broken_env panic_schedule (start (make_converter 2))) =
     Some (ExtractPanic (MissingInput (NewOutPoint [2] 0))) \<and>
   changesSaved (stats (run broken_env panic_schedule (start (make_converter 2)))) = 0 \<and>
   scRepo (run broken_env [SaveChanges, SaveChanges]
       (panic_deferred (run broken_env panic_schedule (start (make_converter 2))))) =
     scan_prefix toy_codec (envChain broken_env) 1 empty_repo"
proof -
  let ?s = "run example_env (rounds 6) (start (make_converter 2))"
  let ?t = "run broken_env panic_schedule (start (make_converter 2))"
  let ?u = "run broken_env [SaveChanges, SaveChanges] (panic_deferred ?t)"
  have e: "envStore example_env = Some empty_repo" "envStore broken_env = Some empty_repo"
    "envCodec broken_env = toy_codec"
    by (simp_all add: example_env_def broken_env_def)
  have s: "store_open (scPc ?s)" "changesSaved (stats ?s) = 1"
    by (simp_all add: conv_eval)
  have t: "crashed ?t = Some (ExtractPanic (MissingInput (NewOutPoint [2] 0)))"
    "changesSaved (stats ?t) = 0"
    by (simp_all add: broken_env_def panic_schedule_def conv_eval scenario_defs ledger_defs)
  have u: "store_open (scPc ?u)" "changesSaved (stats ?u) = 1"
    by (simp_all add: broken_env_def panic_schedule_def panic_deferred_def conv_eval
        scenario_defs ledger_defs)
  have r: "reachable example_env 2 ?s" "reachable broken_env 2 ?t"
    by (intro reachable_run reachable_start)+
  have "dying broken_env 2 ?u" by (rule dying_run [OF dying_panic [OF r(2) t(1)]]) simp
  with r(1) have o: "observable example_env 2 ?s" "observable broken_env 2 ?u"
    by (simp_all add: observable_def del: run.simps)
  from store_is_scan_prefix [OF o(1) e(1) s(1)] store_is_scan_prefix [OF o(2) e(2) u(1)]
    s(2) t u(2) e(3)
  show ?thesis by (simp add: example_env_def)
qed

text \<open>
  C21: No goroutine panics on a ledger whose blocks are all fine: if the
  blocks below the fetch limit, scanned in order from the empty view, have
  every input resolved and no malformed claim script, then no reachable state
  of the pipeline is a crash.
\<close>

theorem convert_no_panic:
  assumes "reachable env n s"
    and "blocks_ok (envCodec env) NewUtxoViewpoint
           (fetched (envChain env) (fetch_limit (envChain env)))"
  shows "crashed s = None"
  using panic_needs_bad_block [OF assms(1)] assms(2) by (cases "crashed s") auto

theorem convert_no_panic_witness:
  "crashed (run example_env (ProcessBlock # rounds 4) (start (make_converter 2))) = None"
proof -
  have "blocks_ok (envCodec example_env) NewUtxoViewpoint
      (fetched (envChain example_env) (fetch_limit (envChain example_env)))"
    by (simp add: conv_eval scan_eval tx_ok_def txin_ok_def txout_ok_def)
  with reachable_run [OF reachable_start] show ?thesis by (rule convert_no_panic)
qed


lemma wf_example_chain: "wf_chain example_chain"
proof -
  have "h \<in> set (heights 0 4)" if "0 \<le>s h" "h \<le>s 3" for h :: int32
    using that by (simp add: set_heights word_sle_eq word_sless_alt)
  then have "h = 0 \<or> h = 1 \<or> h = 2 \<or> h = 3" if "0 \<le>s h" "h \<le>s 3" for h :: int32
    using that by (fastforce simp: heights.simps int32_eval)
  then show ?thesis
    by (auto simp: wf_chain_def conv_eval scenario_defs)
qed


end
