(* ===== verification/Progress.thy ===== *)
theory Progress
  imports Conversion
begin

text \<open>
  Termination of the pipeline. Every step of a goroutine other than
  \<^verbatim>\<open>reportStats\<close> lowers a measure that counts the work left: five units for a
  height still to fetch, four for a block about to be sent, three for a block
  in the block channel, two for a batch about to be sent, one for a batch in
  the changes channel, and the steps each goroutine needs to return. A state
  in which none of them can step is final, or it is the deadlock that a failure
  of the store leaves. So every schedule that gives each of the three
  goroutines its turn often enough ends the conversion, in whatever order the
  turns come. The last sections hold the bounds on the statistics and the
  invariant of the lines \<^verbatim>\<open>reportStats\<close> logs, whose three reads interleave
  with the steps of the others.
\<close>

section \<open>The measure\<close>

definition gb_measure :: "chain \<Rightarrow> get_pc \<Rightarrow> int32 \<Rightarrow> int32 \<Rightarrow> nat" where
  "gb_measure c pc to ht =
     (case pc of
        GbStart \<Rightarrow> 5 * nat (sint (fetch_limit c)) + 2
      | GbLoop \<Rightarrow> 5 * nat (sint to - sint ht) + 1
      | GbSend b \<Rightarrow> 5 * nat (sint to - sint ht)
      | GbDone \<Rightarrow> 0
      | GbLoadFailed \<Rightarrow> 0)"

definition pb_measure :: "proc_pc \<Rightarrow> nat" where
  "pb_measure pc = (case pc of PbRecv \<Rightarrow> 1 | PbSend changes \<Rightarrow> 3 | PbDone \<Rightarrow> 0)"

definition sc_measure :: "save_pc \<Rightarrow> nat" where
  "sc_measure pc = (case pc of ScOpen \<Rightarrow> 2 | ScRecv \<Rightarrow> 1 | _ \<Rightarrow> 0)"

definition conv_measure :: "conv_env \<Rightarrow> converter \<Rightarrow> nat" where
  "conv_measure env s =
     gb_measure (envChain env) (gbPc s) (gbTo s) (gbHt s) + 3 * length (buf (blockChan s)) +
     pb_measure (pbPc s) + length (buf (changesChan s)) + sc_measure (scPc s)"

lemma gb_measure_simps [simp]:
  "gb_measure c GbStart to ht = 5 * nat (sint (fetch_limit c)) + 2"
  "gb_measure c GbLoop to ht = 5 * nat (sint to - sint ht) + 1"
  "gb_measure c (GbSend b) to ht = 5 * nat (sint to - sint ht)"
  "gb_measure c GbDone to ht = 0"
  "gb_measure c GbLoadFailed to ht = 0"
  by (simp_all add: gb_measure_def)

lemma pb_measure_simps [simp]:
  "pb_measure PbRecv = 1" "pb_measure (PbSend changes) = 3" "pb_measure PbDone = 0"
  by (simp_all add: pb_measure_def)

lemma sc_measure_simps [simp]:
  "sc_measure ScOpen = 2" "sc_measure ScRecv = 1" "sc_measure ScDone = 0"
  "sc_measure ScOpenFailed = 0" "sc_measure ScSaveFailed = 0"
  by (simp_all add: sc_measure_def)

lemma measure_getBlock:
  assumes "getBlock env s = Some s'" and "fetch_inv env s"
  shows "conv_measure env s' < conv_measure env s"
  using assms(1)
proof (cases rule: getBlockE)
  case gb_start
  then show ?thesis by (simp add: conv_measure_def)
next
  case (gb_send b)
  with assms(2) have lt: "gbHt s <s gbTo s" by (auto simp: fetch_inv_def dest: fetch_ok_sendD)
  then have "sint (gbHt s) < sint (gbTo s)" by (simp add: word_sless_alt)
  with gb_send show ?thesis
    by (simp add: conv_measure_def send_def sless_sint_succ [OF lt])
qed (simp_all add: conv_measure_def wg_done_def close_chan_def word_sless_alt)

lemma measure_processBlock:
  "processBlock env s = Some s' \<Longrightarrow> conv_measure env s' < conv_measure env s"
  by (erule processBlockE) (simp_all add: conv_measure_def wg_done_def chan_defs)

lemma measure_saveChanges:
  "saveChanges env s = Some s' \<Longrightarrow> conv_measure env s' < conv_measure env s"
  by (erule saveChangesE) (simp_all add: conv_measure_def wg_done_def)

lemma measure_step:
  "step env a s = Some s' \<Longrightarrow> a \<noteq> ReportStats \<Longrightarrow> fetch_inv env s \<Longrightarrow>
   conv_measure env s' < conv_measure env s"
  by (erule stepE) (simp_all add: measure_getBlock measure_processBlock measure_saveChanges)

lemma measure_start:
  "conv_measure env (start (make_converter n)) = 5 * nat (sint (fetch_limit (envChain env))) + 5"
  by (simp add: conv_measure_def conv_defs)

section \<open>When a goroutine can step\<close>

lemma getBlock_enabled:
  "getBlock env s \<noteq> None \<longleftrightarrow>
     gbPc s = GbStart \<or> gbPc s = GbLoop \<or> (\<exists>b. gbPc s = GbSend b \<and> can_send (blockChan s))"
  by (auto simp: getBlock_def split: get_pc.splits option.splits)

lemma processBlock_enabled:
  "processBlock env s \<noteq> None \<longleftrightarrow>
     pbPc s = PbRecv \<and> (buf (blockChan s) \<noteq> [] \<or> closed (blockChan s)) \<or>
     (\<exists>changes. pbPc s = PbSend changes \<and> can_send (changesChan s))"
  by (auto simp: processBlock_def split: proc_pc.splits list.splits sum.splits)

lemma saveChanges_enabled:
  "saveChanges env s \<noteq> None \<longleftrightarrow>
     scPc s = ScOpen \<or>
     scPc s = ScRecv \<and> (buf (changesChan s) \<noteq> [] \<or> closed (changesChan s))"
  by (auto simp: saveChanges_def split: save_pc.splits list.splits sum.splits option.splits)

section \<open>When no goroutine can step\<close>

text \<open>
  A state is final when a goroutine has panicked or all three have returned.
  It is quiescent when none of the three goroutines of the wait group can take
  a step. A quiescent state that is not final is a deadlock, and there is only
  one: \<^verbatim>\<open>saveChanges\<close> has returned on an error of the store and \<^verbatim>\<open>processBlock\<close>
  waits to send on the full changes channel.
\<close>

definition final :: "converter \<Rightarrow> bool" where
  "final s \<longleftrightarrow> crashed s \<noteq> None \<or> all_returned s"

definition store_failed :: "converter \<Rightarrow> bool" where
  "store_failed s \<longleftrightarrow> scPc s = ScOpenFailed \<or> scPc s = ScSaveFailed"

definition blocked_on_store :: "converter \<Rightarrow> bool" where
  "blocked_on_store s \<longleftrightarrow>
     crashed s = None \<and> store_failed s \<and> \<not> can_send (changesChan s) \<and>
     (\<exists>changes. pbPc s = PbSend changes)"

definition quiescent :: "conv_env \<Rightarrow> converter \<Rightarrow> bool" where
  "quiescent env s \<longleftrightarrow> list_all (\<lambda>w. step env w s = None) workers"

lemma quiescentD:
  assumes "quiescent env s" and "crashed s = None"
  shows "getBlock env s = None" and "processBlock env s = None" and "saveChanges env s = None"
  using assms by (simp_all add: quiescent_def workers_def step_def)

lemma stuck_cases:
  assumes "chan_inv n s" and "0 < n" and "done_inv env s" and "quiescent env s"
    and "crashed s = None"
  shows "all_returned s \<or> blocked_on_store s"
proof -
  note g = quiescentD(1) [OF assms(4,5)] and p = quiescentD(2) [OF assms(4,5)]
    and c = quiescentD(3) [OF assms(4,5)]
  from assms(1) have cl: "closed (blockChan s) = gb_returned (gbPc s)"
    "closed (changesChan s) = (pbPc s = PbDone)"
    and cap: "cap (blockChan s) = n" "cap (changesChan s) = n"
    by (simp_all add: chan_inv_def)
  from c have sc: "sc_returned (scPc s) \<or>
      scPc s = ScRecv \<and> buf (changesChan s) = [] \<and> \<not> closed (changesChan s)"
    using saveChanges_enabled [of env s] by (cases "scPc s") (auto simp: sc_returned_def)
  show ?thesis
  proof (cases "pbPc s")
    case PbRecv
    with p have "buf (blockChan s) = []" "\<not> closed (blockChan s)"
      using processBlock_enabled [of env s] by auto
    with g cl cap assms(2) show ?thesis
      using getBlock_enabled [of env s]
      by (cases "gbPc s") (auto simp: can_send_def gb_returned_def)
  next
    case (PbSend changes)
    with p have full: "\<not> can_send (changesChan s)"
      using processBlock_enabled [of env s] by auto
    with sc cap assms(2) have "sc_returned (scPc s)" by (auto simp: can_send_def)
    with assms(3,5) full PbSend cl have "blocked_on_store s"
      by (auto simp: blocked_on_store_def store_failed_def sc_returned_def done_inv_def)
    then show ?thesis ..
  next
    case PbDone
    with assms(3) cl sc have "gb_returned (gbPc s)" "sc_returned (scPc s)"
      by (auto simp: done_inv_def)
    with PbDone show ?thesis by (simp add: all_returned_def)
  qed
qed

lemma final_quiescent: "final s \<Longrightarrow> quiescent env s"
  by (auto simp: final_def quiescent_def workers_def step_def all_returned_def getBlock_def
      processBlock_def saveChanges_def gb_returned_def sc_returned_def)

section \<open>Fair schedules\<close>

text \<open>
  Any schedule in which the three goroutines of the wait group keep getting
  their turn leads to a quiescent state, whatever the order of the turns and
  wherever \<^verbatim>\<open>reportStats\<close> runs in between. \<open>fair_rounds seen sch\<close> counts the
  rounds of \<open>sch\<close>: a round is complete as soon as each of the three has been
  named since the last complete round (\<open>seen\<close> are those named so far in the
  current round).
\<close>

definition next_seen :: "actor \<Rightarrow> actor list \<Rightarrow> actor list \<times> nat" where
  "next_seen a seen =
     (if a = ReportStats then (seen, 0)
      else if list_all (\<lambda>w. w \<in> set (a # seen)) workers then ([], 1)
      else (a # seen, 0))"

fun fair_rounds :: "actor list \<Rightarrow> actor list \<Rightarrow> nat" where
  "fair_rounds seen [] = 0"
| "fair_rounds seen (a # as) =
     (case next_seen a seen of (seen', k) \<Rightarrow> k + fair_rounds seen' as)"

definition after :: "conv_env \<Rightarrow> actor \<Rightarrow> converter \<Rightarrow> converter" where
  "after env a s = (case step env a s of None \<Rightarrow> s | Some s' \<Rightarrow> s')"

text \<open>
  The potential of a state within a round: the measure, and one more unless
  every goroutine named in the round so far is known to be blocked.
\<close>

definition potential :: "conv_env \<Rightarrow> actor list \<Rightarrow> converter \<Rightarrow> nat" where
  "potential env seen s =
     conv_measure env s + (if list_all (\<lambda>a. step env a s = None) seen then 0 else 1)"

lemma run_Cons_after: "run env (a # as) s = run env as (after env a s)"
  by (simp add: after_def split: option.splits)

lemma reachable_after: "reachable env n s \<Longrightarrow> reachable env n (after env a s)"
  by (auto simp: after_def split: option.splits intro: reachable_step)

lemma enabled_reports:
  "getBlock env (s\<lparr>rsPc := pc, reports := r\<rparr>) \<noteq> None \<longleftrightarrow> getBlock env s \<noteq> None"
  "processBlock env (s\<lparr>rsPc := pc, reports := r\<rparr>) \<noteq> None \<longleftrightarrow> processBlock env s \<noteq> None"
  "saveChanges env (s\<lparr>rsPc := pc, reports := r\<rparr>) \<noteq> None \<longleftrightarrow> saveChanges env s \<noteq> None"
  by (simp_all only: getBlock_enabled processBlock_enabled saveChanges_enabled) simp_all

lemma blocked_reports:
  assumes "a \<noteq> ReportStats" and "step env a s = None"
  shows "step env a (s\<lparr>rsPc := pc, reports := r\<rparr>) = None"
proof (cases "crashed s")
  case None
  with assms enabled_reports [where env = env and s = s] show ?thesis
    by (cases a) (simp_all add: step_def)
next
  case (Some p)
  then show ?thesis by (simp add: step_def)
qed

lemma quiescent_after: "quiescent env s \<Longrightarrow> quiescent env (after env a s)"
proof (cases "step env a s")
  case (Some s')
  assume q: "quiescent env s"
  with Some have "a = ReportStats" by (cases a) (auto simp: quiescent_def workers_def)
  with Some obtain pc rs where "s' = s\<lparr>rsPc := pc, reports := rs\<rparr>" by (auto elim: stepE)
  with q Some show ?thesis
    by (simp add: after_def quiescent_def workers_def blocked_reports)
qed (simp add: after_def)

lemma quiescent_run: "quiescent env s \<Longrightarrow> quiescent env (run env as s)"
proof (induction as arbitrary: s)
  case (Cons a as)
  then show ?case by (simp add: run_Cons_after quiescent_after del: run.simps)
qed simp

lemma fair_step:
  assumes "reachable env n s"
  shows "quiescent env (after env a s) \<or>
         potential env (fst (next_seen a seen)) (after env a s) + snd (next_seen a seen) \<le>
           potential env seen s"
proof (cases "step env a s")
  case None
  show ?thesis
  proof (cases "list_all (\<lambda>w. w \<in> set (a # seen)) workers \<and>
      list_all (\<lambda>a. step env a s = None) seen")
    case True
    with None have "quiescent env s" by (auto simp: quiescent_def list_all_iff)
    with None show ?thesis by (simp add: after_def)
  next
    case False
    with None show ?thesis
      by (cases "a = ReportStats")
        (auto simp: after_def potential_def next_seen_def step_def reportStats_enabled
          quiescent_def split: if_splits)
  qed
next
  case (Some s')
  show ?thesis
  proof (cases "a = ReportStats")
    case True
    with Some obtain pc rs where s': "s' = s\<lparr>rsPc := pc, reports := rs\<rparr>"
      by (auto elim: stepE)
    then have "list_all (\<lambda>a. step env a s' = None) seen"
      if "list_all (\<lambda>a. step env a s = None) seen"
      using that Some True
      by (auto simp: list_all_iff intro: blocked_reports)
    with Some True s' show ?thesis
      by (auto simp: after_def potential_def next_seen_def conv_measure_def)
  next
    case False
    from measure_step [OF Some False reachable_fetch_inv [OF assms(1)]] Some False
    show ?thesis by (auto simp: after_def potential_def next_seen_def)
  qed
qed

lemma fair_run:
  "reachable env n s \<Longrightarrow>
   quiescent env (run env sch s) \<or>
   conv_measure env (run env sch s) + fair_rounds seen sch \<le> potential env seen s"
proof (induction sch arbitrary: s seen)
  case Nil
  then show ?case by (simp add: potential_def)
next
  case (Cons a as)
  from fair_step [OF Cons.prems, of a seen]
    Cons.IH [OF reachable_after [OF Cons.prems], of a "fst (next_seen a seen)"]
  show ?case
    by (auto simp: run_Cons_after split_beta intro: quiescent_run simp del: run.simps)
qed

lemma positive_measure:
  assumes "reachable env n s" and "\<not> quiescent env s"
  shows "0 < conv_measure env s"
proof -
  from assms(2) obtain w s' where "step env w s = Some s'" "w \<noteq> ReportStats"
    by (auto simp: quiescent_def workers_def)
  from measure_step [OF this reachable_fetch_inv [OF assms(1)]] show ?thesis by simp
qed

lemma measure_reachable:
  "reachable env n s \<Longrightarrow>
   conv_measure env s \<le> 5 * nat (sint (fetch_limit (envChain env))) + 5"
proof (induction rule: reachable.induct)
  case (reachable_step s a s')
  show ?case
  proof (cases "a = ReportStats")
    case True
    with reachable_step(2) have "conv_measure env s' = conv_measure env s"
      by (auto simp: conv_measure_def elim: stepE)
    with reachable_step(3) show ?thesis by simp
  next
    case False
    from measure_step [OF reachable_step(2) False reachable_fetch_inv [OF reachable_step(1)]]
      reachable_step(3)
    show ?thesis by simp
  qed
qed (simp add: measure_start)

lemma fair_quiescent:
  assumes "reachable env n s"
    and "5 * nat (sint (fetch_limit (envChain env))) + 5 \<le> fair_rounds [] sch"
  shows "quiescent env (run env sch s)"
proof (rule ccontr)
  assume nq: "\<not> quiescent env (run env sch s)"
  from positive_measure [OF reachable_run [OF assms(1)] nq] nq assms(2)
    fair_run [OF assms(1), where sch = sch and seen = "[]"] measure_reachable [OF assms(1)]
  show False by (simp add: potential_def)
qed

lemma fair_cases:
  assumes "0 < n" and "reachable env n s0"
    and "5 * nat (sint (fetch_limit (envChain env))) + 5 \<le> fair_rounds [] sch"
    and "s = run env sch s0"
  shows "crashed s \<noteq> None \<or> all_returned s \<or> blocked_on_store s"
proof -
  have r: "reachable env n s" unfolding assms(4) by (rule reachable_run [OF assms(2)])
  have "quiescent env s" unfolding assms(4) by (rule fair_quiescent [OF assms(2,3)])
  from stuck_cases [OF reachable_chan_inv [OF r] assms(1) reachable_done_inv [OF r] this]
  show ?thesis by blast
qed

lemma fair_rounds_rounds: "fair_rounds [] (rounds k) = k"
  by (induction k) (simp_all add: workers_def next_seen_def)

lemma fair_total:
  assumes "0 < n" and "envStore env = Some r" and "\<forall>h. \<not> saveFails r h"
    and "list_all (\<lambda>h. BlockByHeight (envChain env) h \<noteq> None)
           (heights 0 (fetch_limit (envChain env)))"
    and "blocks_ok (envCodec env) NewUtxoViewpoint
           (fetched (envChain env) (fetch_limit (envChain env)))"
    and "5 * nat (sint (fetch_limit (envChain env))) + 5 \<le> fair_rounds [] sch"
    and "s = run env sch (start (make_converter n))"
  shows "wait_returns s \<and> crashed s = None \<and>
         scRepo s = convert_seq (envCodec env) (envChain env) r"
proof -
  have r: "reachable env n s" unfolding assms(7) by (intro reachable_run reachable_start)
  have nc: "crashed s = None"
    using panic_needs_bad_block [OF r] assms(5) by (cases "crashed s") auto
  from no_store_failure [OF r nc assms(2,3)] have "\<not> blocked_on_store s"
    by (simp add: blocked_on_store_def store_failed_def)
  with fair_cases [OF assms(1) reachable_start assms(6,7)] nc have ar: "all_returned s" by simp
  with wait_returns_iff [OF reachable_chan_inv [OF r] nc] final_store [OF r ar nc assms(2-4)] nc
  show ?thesis by simp
qed

text \<open>
  A family of schedules that are fair and not round-robin: in every round
  \<^verbatim>\<open>saveChanges\<close> comes first, then a report, then \<^verbatim>\<open>processBlock\<close> twice, then
  \<^verbatim>\<open>getBlock\<close>.
\<close>

fun uneven :: "nat \<Rightarrow> actor list" where
  "uneven 0 = []"
| "uneven (Suc k) = [SaveChanges, ReportStats, ProcessBlock, ProcessBlock, GetBlock] @ uneven k"

lemma uneven_numeral:
  "uneven (numeral k) =
     [SaveChanges, ReportStats, ProcessBlock, ProcessBlock, GetBlock] @ uneven (pred_numeral k)"
  by (simp add: numeral_eq_Suc)

lemma fair_rounds_uneven: "fair_rounds [] (uneven k) = k"
  by (induction k) (simp_all add: workers_def next_seen_def)

section \<open>Statistics\<close>

lemma step_stat_le:
  "step env a s = Some s' \<Longrightarrow>
   stats s \<le> stats s' \<and> (a \<noteq> ReportStats \<longrightarrow> reports s' = reports s)"
  by (erule stepE; (elim goroutineE)?) (simp_all add: stat_le_iff wg_done_def)

text \<open>
  The line \<^verbatim>\<open>reportStats\<close> is about to log: the counters it has read already,
  and the current values of those it has not.
\<close>

definition pending_line :: "converter \<Rightarrow> stat" where
  "pending_line s =
     (case rsPc s of
        RsTick \<Rightarrow> stats s
      | RsFetched f \<Rightarrow> (stats s)\<lparr>blocksFetched := f\<rparr>
      | RsProcessed f p \<Rightarrow> (stats s)\<lparr>blocksFetched := f, blocksProcessed := p\<rparr>)"

definition report_inv :: "converter \<Rightarrow> bool" where
  "report_inv s \<longleftrightarrow>
     sorted_wrt (\<le>) (reports s) \<and> list_all (\<lambda>r. r \<le> pending_line s) (reports s) \<and>
     pending_line s \<le> stats s"

lemma pending_line_mono:
  assumes "stats s \<le> stats s'" and "rsPc s' = rsPc s" and "pending_line s \<le> stats s"
  shows "pending_line s \<le> pending_line s'" and "pending_line s' \<le> stats s'"
  using assms by (auto simp: pending_line_def stat_le_iff split: report_pc.splits)

lemma report_inv_reportStats:
  assumes "reportStats s = Some s'" and "report_inv s"
  shows "report_inv s'"
proof (cases "rsPc s")
  case (RsProcessed f p)
  with assms(1) have s': "reports s' = reports s @ [pending_line s]" "pending_line s' = stats s"
    "stats s' = stats s"
    by (auto simp: reportStats_def pending_line_def)
  with assms(2) show ?thesis
    by (auto simp: report_inv_def sorted_wrt_append list_all_iff intro: order_trans)
qed (use assms in \<open>auto simp: reportStats_def report_inv_def pending_line_def\<close>)

lemma report_inv_step:
  assumes "step env a s = Some s'" and "report_inv s"
  shows "report_inv s'"
proof (cases "a = ReportStats")
  case True
  with assms show ?thesis by (auto elim!: stepE intro: report_inv_reportStats)
next
  case False
  from assms(1) False have "rsPc s' = rsPc s"
    by (cases rule: stepE; (elim goroutineE)?) (simp_all add: wg_done_def)
  from pending_line_mono [OF _ this] step_stat_le [OF assms(1)] False assms(2) show ?thesis
    by (auto simp: report_inv_def list_all_iff intro: order_trans)
qed

lemma report_inv_start: "report_inv (start (make_converter n))"
  by (simp add: report_inv_def pending_line_def make_converter_def start_def)

lemma reachable_report_inv: "reachable env n s \<Longrightarrow> report_inv s"
  by (induction rule: reachable.induct) (auto intro: report_inv_start report_inv_step)

lemma fetch_limit_le: "fetch_limit c \<le>s 200000"
  by (simp add: fetch_limit_def word_sle_eq word_sless_alt)

lemma fetch_ok_bound:
  assumes "fetch_ok c pc to ht k"
  shows "k \<le> 200000"
proof -
  from assms have ge: "0 \<le>s ht" and k: "k = length (heights 0 ht) + length (pending_block pc)"
    unfolding fetch_ok_def by blast+
  show ?thesis
  proof (cases pc)
    case (GbSend b)
    with assms have "ht <s to" "to = fetch_limit c" unfolding fetch_ok_def by blast+
    with fetch_limit_le [of c] ge k GbSend show ?thesis
      by (simp add: length_heights word_sle_eq word_sless_alt)
  next
    case GbStart
    with assms have "ht = 0" unfolding fetch_ok_def by blast
    with k GbStart show ?thesis by simp
  qed (use assms fetch_limit_le [of c] ge k in
      \<open>auto simp: fetch_ok_def length_heights word_sle_eq word_sless_alt\<close>)
qed

section \<open>A store failure can block the pipeline for ever\<close>

lemma blocked_on_store_step:
  assumes "step env a s = Some s'" and "blocked_on_store s"
  shows "blocked_on_store s'"
  using assms(1)
proof (cases rule: stepE)
  case get
  from get(3) assms(2) show ?thesis
    by (cases rule: getBlockE) (auto simp: blocked_on_store_def store_failed_def wg_done_def)
next
  case process
  from process(3) assms(2) show ?thesis
    by (cases rule: processBlockE) (auto simp: blocked_on_store_def)
next
  case save
  from save(3) assms(2) show ?thesis
    by (cases rule: saveChangesE) (auto simp: blocked_on_store_def store_failed_def)
next
  case report
  with assms(2) show ?thesis by (simp add: blocked_on_store_def store_failed_def)
qed

lemma blocked_on_store_run: "blocked_on_store s \<Longrightarrow> blocked_on_store (run env as s)"
  by (induction as arbitrary: s) (auto split: option.splits intro: blocked_on_store_step)

section \<open>Properties\<close>

text \<open>
  C8: Every fair schedule brings the conversion to an end, and there are three
  ends. With channels of capacity at least one, every schedule that contains
  five rounds per height below the fetch limit and five more (a round being
  any stretch of the schedule in which each of \<^verbatim>\<open>getBlock\<close>, \<^verbatim>\<open>processBlock\<close> and
  \<^verbatim>\<open>saveChanges\<close> is named at least once, in any order and with \<^verbatim>\<open>reportStats\<close>
  anywhere in between) leads from every reachable state, the start included,
  to a state in which a goroutine has panicked, or \<^verbatim>\<open>wait\<close> returns, or \<^verbatim>\<open>saveChanges\<close> has returned on an error
  of the store and \<^verbatim>\<open>processBlock\<close> is blocked on the full changes channel. When
  the store opens and its saves do not fail, the third does not happen.
\<close>

theorem convert_terminates:
  assumes "0 < n" and "reachable env n s0"
    and "5 * nat (sint (fetch_limit (envChain env))) + 5 \<le> fair_rounds [] sch"
    and "s = run env sch s0"
  shows "(crashed s \<noteq> None \<or> wait_returns s \<or> blocked_on_store s) \<and>
         ((\<exists>r. envStore env = Some r \<and> (\<forall>h. \<not> saveFails r h)) \<longrightarrow> \<not> blocked_on_store s)"
proof -
  have r: "reachable env n s" unfolding assms(4) by (rule reachable_run [OF assms(2)])
  from fair_cases [OF assms] wait_returns_iff [OF reachable_chan_inv [OF r]]
  have "crashed s \<noteq> None \<or> wait_returns s \<or> blocked_on_store s" by auto
  moreover have "\<not> blocked_on_store s"
    if "envStore env = Some r" "\<forall>h. \<not> saveFails r h" for r
    using no_store_failure [OF r _ that] by (auto simp: blocked_on_store_def store_failed_def)
  ultimately show ?thesis by blast
qed

theorem convert_terminates_witness:
  "wait_returns (run example_env (uneven 20) (start (make_converter 2))) \<and>
   blocked_on_store (run (example_env\<lparr>envStore := None\<rparr>) (uneven 20) (start (make_converter 1)))"
proof -
  let ?s = "run example_env (uneven 20) (start (make_converter 2))"
  let ?env = "example_env\<lparr>envStore := None\<rparr>"
  let ?t = "run ?env (uneven 20) (start (make_converter 1))"
  have rounds: "5 * nat (sint (fetch_limit (envChain example_env))) + 5 \<le> fair_rounds [] (uneven 20)"
    "5 * nat (sint (fetch_limit (envChain ?env))) + 5 \<le> fair_rounds [] (uneven 20)"
    by (simp_all add: example_env_def fetch_limit_def example_chain_def int32_eval
        fair_rounds_uneven)
  have two: "0 < (2::nat)" by simp
  note s = convert_terminates [OF two reachable_start rounds(1) refl]
    and t = convert_terminates [OF zero_less_one reachable_start rounds(2) refl]
  from s [THEN conjunct2] have "\<not> blocked_on_store ?s"
    by (simp add: example_env_def empty_repo_def)
  moreover have "crashed ?s = None" by (simp add: conv_eval uneven_numeral)
  moreover have "crashed ?t = None" "\<not> wait_returns ?t"
    by (simp_all add: conv_eval uneven_numeral)
  moreover note s [THEN conjunct1] t [THEN conjunct1]
  ultimately show ?thesis by blast
qed

text \<open>
  C36: While no goroutine has panicked the three counters are ordered and
  bounded: batches saved at most blocks processed, blocks processed at most
  blocks fetched, blocks fetched at most 200000; so the counters, of type
  \<^verbatim>\<open>int\<close> in the source, never overflow.
\<close>

theorem stats_bounded:
  assumes "reachable env n s" and "crashed s = None"
  shows "changesSaved (stats s) \<le> blocksProcessed (stats s) \<and>
         blocksProcessed (stats s) \<le> blocksFetched (stats s) \<and>
         blocksFetched (stats s) \<le> 200000"
proof -
  let ?fs = "fetched (envChain env) (gbHt s)"
  from reachable_fetch_inv [OF assms(1)] have
    fe: "fetch_ok (envChain env) (gbPc s) (gbTo s) (gbHt s) (blocksFetched (stats s))"
    by (simp add: fetch_inv_def)
  then have "length ?fs \<le> blocksFetched (stats s)"
    by (simp add: fetch_ok_def length_fetched)
  moreover from reachable_flow_inv [OF assms(1)] assms(2) have
    "blocksProcessed (stats s) \<le> length ?fs"
    "taken (scPc s) (changesSaved (stats s)) \<le> length (made env s)"
    by (simp_all add: flow_inv_def blocks_flow_def window_def)
  moreover have "length (made env s) \<le> blocksProcessed (stats s)"
    using length_produced_le [of "envCodec env" "take (blocksProcessed (stats s)) ?fs"]
    by (simp add: made_def)
  ultimately show ?thesis
    using fetch_ok_bound [OF fe] taken_ge [of "changesSaved (stats s)" "scPc s"] by simp
qed

theorem stats_bounded_witness:
  "changesSaved (stats (run example_env (rounds 7) (start (make_converter 2)))) \<le>
     blocksProcessed (stats (run example_env (rounds 7) (start (make_converter 2)))) \<and>
   blocksFetched (stats (run example_env (rounds 7) (start (make_converter 2)))) = 3"
proof -
  let ?s = "run example_env (rounds 7) (start (make_converter 2))"
  have "reachable example_env 2 ?s" by (intro reachable_run reachable_start)
  moreover have "crashed ?s = None" by (simp add: conv_eval)
  ultimately have "changesSaved (stats ?s) \<le> blocksProcessed (stats ?s) \<and>
      blocksProcessed (stats ?s) \<le> blocksFetched (stats ?s) \<and>
      blocksFetched (stats ?s) \<le> 200000"
    by (rule stats_bounded)
  moreover have "blocksFetched (stats ?s) = 3" by (simp add: conv_eval)
  ultimately show ?thesis by simp
qed

text \<open>
  C37: The lines \<^verbatim>\<open>reportStats\<close> logs. The three counters of a line are read one
  after the other while the other goroutines run, so a line need not show the
  counters of one moment: in the run of the witness it shows one block
  processed and none fetched. In every reachable state, all the same, no
  counter goes backwards from one line to the next nor from the last line to
  the one about to be logged, and what is logged of a counter is at most its
  current value (and so, by the bounds on the counters, never overflows).
\<close>

theorem reports_monotone:
  assumes "reachable env n s"
  shows "sorted_wrt (\<le>) (reports s @ [pending_line s, stats s])"
  using reachable_report_inv [OF assms]
  by (auto simp: report_inv_def sorted_wrt_append list_all_iff intro: order_trans)

theorem reports_monotone_witness:
  "reports (run example_env
      [ReportStats, GetBlock, GetBlock, GetBlock, ProcessBlock, ReportStats, ReportStats]
      (start (make_converter 2))) =
     [\<lparr>blocksFetched = 0, blocksProcessed = 1, changesSaved = 0\<rparr>] \<and>
   \<lparr>blocksFetched = 0, blocksProcessed = 1, changesSaved = 0\<rparr> \<le>
     stats (run example_env
       [ReportStats, GetBlock, GetBlock, GetBlock, ProcessBlock, ReportStats, ReportStats]
       (start (make_converter 2)))"
proof -
  let ?s = "run example_env
    [ReportStats, GetBlock, GetBlock, GetBlock, ProcessBlock, ReportStats, ReportStats]
    (start (make_converter 2))"
  have r: "reports ?s = [\<lparr>blocksFetched = 0, blocksProcessed = 1, changesSaved = 0\<rparr>]"
    by (simp add: conv_eval)
  have "reachable example_env 2 ?s" by (intro reachable_run reachable_start)
  from reports_monotone [OF this] have "list_all (\<lambda>x. x \<le> stats ?s) (reports ?s)"
    by (auto simp: sorted_wrt_append list_all_iff simp del: run.simps intro: order_trans)
  with r show ?thesis by (simp del: run.simps)
qed

text \<open>
  C24: A failure of the store can block the conversion for ever. Once
  \<^verbatim>\<open>saveChanges\<close> has returned on an error while \<^verbatim>\<open>processBlock\<close> waits to send a
  batch on the full changes channel, no schedule makes \<^verbatim>\<open>wait\<close> return: nobody
  receives from the channel any more.
\<close>

theorem store_failure_blocks_forever:
  assumes "reachable env n s" and "blocked_on_store s"
  shows "\<not> wait_returns (run env as s)"
proof -
  let ?t = "run env as s"
  have b: "blocked_on_store ?t" by (rule blocked_on_store_run [OF assms(2)])
  then have "crashed ?t = None" "pbPc ?t \<noteq> PbDone" by (auto simp: blocked_on_store_def)
  with wait_returns_iff [OF reachable_chan_inv [OF reachable_run [OF assms(1)]], of as]
  show ?thesis by (simp add: all_returned_def)
qed

theorem store_failure_blocks_forever_witness:
  "\<forall>as. \<not> wait_returns
     (run (example_env\<lparr>envStore := None\<rparr>) as
        (run (example_env\<lparr>envStore := None\<rparr>) (rounds 9) (start (make_converter 1))))"
proof
  fix as
  let ?env = "example_env\<lparr>envStore := None\<rparr>"
  let ?s = "run ?env (rounds 9) (start (make_converter 1))"
  have "reachable ?env 1 ?s" by (intro reachable_run reachable_start)
  moreover have "blocked_on_store ?s"
    by (simp add: blocked_on_store_def store_failed_def conv_eval)
  ultimately show "\<not> wait_returns (run ?env as ?s)" by (rule store_failure_blocks_forever)
qed

end
