(* ===== verification/Converted_Log.thy ===== *)
theory Converted_Log
  imports Conversion
begin

text \<open>
  What the converted change log holds, height by height, and its typing.
  \<open>batch_at x c h\<close> is the batch the sequential scan extracts from the block of
  height \<open>h\<close>: the changes of that block over the view that the blocks below it
  have led to. The converter stores it under \<open>h\<close> when it is not empty and
  leaves the store at \<open>h\<close> as it was when it is; \<open>claim_heights\<close> are the
  heights it stores at, in the order of the scan, so that the store after \<open>k\<close>
  saves holds the batches of the first \<open>k\<close> of them. Every batch the pipeline sends
  or saves is non-empty and well-formed for the height it is saved under.
\<close>

section \<open>The batch of a height\<close>

definition batch_at :: "codec \<Rightarrow> chain \<Rightarrow> int32 \<Rightarrow> change list" where
  "batch_at x c h =
     (case BlockByHeight c h of
        None \<Rightarrow> []
      | Some b \<Rightarrow>
          txs_changes x (blockHeight b) (ledger_view (fetched c h) NewUtxoViewpoint)
            (Transactions b))"

text \<open>
  The heights below the fetch limit whose block has claim activity, in
  ascending order: the keys under which the sequential scan saves.
\<close>

definition claim_heights :: "codec \<Rightarrow> chain \<Rightarrow> int32 list" where
  "claim_heights x c = filter (\<lambda>h. batch_at x c h \<noteq> []) (heights 0 (fetch_limit c))"

section \<open>The blocks of a range of heights\<close>

lemma wf_chain_block:
  assumes "wf_chain c" and "0 \<le>s h" and "h <s to" and "to \<le>s bestHeight c"
  obtains b where "BlockByHeight c h = Some b" and "blockHeight b = h"
proof -
  from assms(3,4) have "h \<le>s bestHeight c" by (simp add: word_sle_eq word_sless_alt)
  with assms(1,2) that show ?thesis by (auto simp: wf_chain_def)
qed

lemma wf_chain_complete:
  assumes "wf_chain c"
  shows "list_all (\<lambda>h. BlockByHeight c h \<noteq> None) (heights 0 (fetch_limit c))"
proof -
  have "BlockByHeight c h \<noteq> None" if "h \<in> set (heights 0 (fetch_limit c))" for h
  proof -
    from that have "0 \<le>s h" "h <s fetch_limit c" by (simp_all add: set_heights)
    from wf_chain_block [OF assms this fetch_limit_le_best] show ?thesis by auto
  qed
  then show ?thesis by (simp add: list_all_iff)
qed

section \<open>What the scan stores at a height\<close>

lemma batch_at_key: "batch_at x c h \<noteq> [] \<Longrightarrow> BlockByHeight c h = Some b \<Longrightarrow>
    Height (hd (batch_at x c h)) = blockHeight b"
  using list_all_hd [OF txs_changes_Height [of "blockHeight b" x _ "Transactions b"]]
  by (simp add: batch_at_def)

lemma loadFails_fold_store_batch [simp]: "loadFails (fold store_batch bs r) = loadFails r"
  by (induction bs arbitrary: r) (simp_all add: store_batch_def)

lemma scan_batches:
  "wf_chain c \<Longrightarrow> 0 \<le>s a \<Longrightarrow> b \<le>s fetch_limit c \<Longrightarrow>
   filter (\<lambda>changes. changes \<noteq> [])
     (block_batches x (ledger_view (fetched c a) NewUtxoViewpoint)
        (List.map_filter (BlockByHeight c) (heights a b))) =
   map (batch_at x c) (filter (\<lambda>h. batch_at x c h \<noteq> []) (heights a b))"
proof (induction a b rule: heights.induct)
  case (1 a b)
  show ?case
  proof (cases "a <s b")
    case True
    from 1(4) fetch_limit_le_best [of c] have "b \<le>s bestHeight c" by (simp add: word_sle_eq)
    from wf_chain_block [OF 1(2,3) True this] obtain blk
      where blk: "BlockByHeight c a = Some blk" "blockHeight blk = a" .
    from 1(3) True have "0 \<le>s a + 1" by (simp add: word_sle_eq sless_sint_succ)
    note IH = 1(1) [OF True 1(2) this 1(4)]
    have v: "ledger_view (fetched c (a + 1)) NewUtxoViewpoint =
        register_all (Transactions blk) (ledger_view (fetched c a) NewUtxoViewpoint)"
      by (simp add: fetched_snoc [OF 1(3) True blk(1)])
    have b: "batch_at x c a =
        txs_changes x a (ledger_view (fetched c a) NewUtxoViewpoint) (Transactions blk)"
      by (simp add: batch_at_def blk)
    from IH show ?thesis
      by (simp add: heights_Cons [OF True] List.map_filter_def blk v b [symmetric])
  qed simp
qed

lemma produced_batch_at:
  assumes "wf_chain c"
  shows "produced x (fetched c (fetch_limit c)) = map (batch_at x c) (claim_heights x c)"
  using scan_batches [OF assms, of 0 "fetch_limit c" x]
  by (simp add: produced_def claim_heights_def fetched_def ledger_view_def word_sle_eq)

lemma set_claim_heights:
  "set (claim_heights x c) = {h. 0 \<le>s h \<and> h <s fetch_limit c \<and> batch_at x c h \<noteq> []}"
  by (auto simp: claim_heights_def set_heights)

lemma claim_key:
  assumes "wf_chain c"
  shows "list_all (\<lambda>h. Height (hd (batch_at x c h)) = h) (claim_heights x c)"
proof -
  have "Height (hd (batch_at x c h)) = h" if "h \<in> set (claim_heights x c)" for h
  proof -
    from that have h: "0 \<le>s h" "h <s fetch_limit c" "batch_at x c h \<noteq> []"
      by (simp_all add: set_claim_heights)
    from wf_chain_block [OF assms h(1,2) fetch_limit_le_best] obtain b where
      "BlockByHeight c h = Some b" "blockHeight b = h" by blast
    with batch_at_key [OF h(3)] show ?thesis by simp
  qed
  then show ?thesis by (simp add: list_all_iff)
qed

lemma produced_keys:
  assumes "wf_chain c"
  shows "map (\<lambda>changes. Height (hd changes)) (produced x (fetched c (fetch_limit c))) =
           claim_heights x c"
  using claim_key [OF assms, of x]
  by (simp add: produced_batch_at [OF assms] list_all_iff map_idI)

text \<open>
  Saving batches that are keyed by their heights: the store holds the batch of
  each of the heights, whatever the order, and is untouched elsewhere.
\<close>

lemma fold_store_keyed:
  "list_all (\<lambda>h. Height (hd (f h)) = h) hs \<Longrightarrow>
   batches (fold store_batch (map f hs) r) h = (if h \<in> set hs then Some (f h) else batches r h)"
  by (induction hs arbitrary: r) (auto simp: batches_store_batch)

lemma scan_prefix_batches:
  assumes "wf_chain c"
  shows "batches (scan_prefix x c k r) h =
           (if h \<in> set (take k (claim_heights x c)) then Some (batch_at x c h)
            else batches r h)"
proof -
  from claim_key [OF assms, of x]
  have "list_all (\<lambda>h. Height (hd (batch_at x c h)) = h) (take k (claim_heights x c))"
    by (auto simp: list_all_iff dest: in_set_takeD)
  from fold_store_keyed [OF this] show ?thesis
    by (simp add: scan_prefix_def produced_batch_at [OF assms] take_map)
qed

lemma stored_scan_prefix:
  assumes "wf_chain c" and "batches r = Map.empty"
  shows "stored (scan_prefix x c k r) h =
           (if h \<in> set (take k (claim_heights x c)) then batch_at x c h else [])"
  using scan_prefix_batches [OF assms(1), of x k r h] assms(2) by (simp add: stored_def)

lemma stored_batch:
  assumes "wf_chain c" and "0 \<le>s h" and "h <s fetch_limit c"
  shows "batches (convert_seq x c r) h =
           (if batch_at x c h = [] then batches r h else Some (batch_at x c h))"
  using scan_prefix_batches [OF assms(1), of x "length (claim_heights x c)" r h] assms(2,3)
  by (simp add: scan_prefix_all produced_batch_at [OF assms(1)] set_claim_heights)

lemma stored_convert_seq:
  assumes "wf_chain c" and "batches r = Map.empty" and "0 \<le>s h" and "h <s fetch_limit c"
  shows "stored (convert_seq x c r) h = batch_at x c h"
  using stored_batch [OF assms(1,3,4), of x r] assms(2) by (simp add: stored_def)

section \<open>Typing of the batches in flight and in the store\<close>

text \<open>
  The batches in the changes channel, the batch \<^verbatim>\<open>processBlock\<close> is about to
  send and the batches of the store are typed: non-empty, and every change
  well-formed for the height of the first change, which is the key
  \<^verbatim>\<open>saveChanges\<close> saves the batch under.
\<close>

definition type_inv :: "converter \<Rightarrow> bool" where
  "type_inv s \<longleftrightarrow>
     list_all (\<lambda>changes. typed_batch (Height (hd changes)) changes)
       (buf (changesChan s) @ pending_batch (pbPc s)) \<and>
     typed_repo (scRepo s)"

lemma extract_block_typed:
  assumes "wf_codec x" and "extract_block x view b = Inr (view', changes)" and "changes \<noteq> []"
  shows "typed_batch (Height (hd changes)) changes"
proof -
  from assms(2) have "changes = txs_changes x (blockHeight b) view (Transactions b)"
    by (simp add: extract_block_Inr_iff)
  with assms(1) have wf: "list_all (wf_change (blockHeight b)) changes"
    by (simp add: txs_changes_wf)
  from list_all_hd [OF wf assms(3)] have "Height (hd changes) = blockHeight b"
    by (simp add: wf_change_def)
  with wf assms(3) show ?thesis by (simp add: typed_batch_def)
qed

lemma type_inv_start: "type_inv (start (make_converter n))"
  by (simp add: type_inv_def conv_defs)

lemma type_inv_getBlock: "getBlock env s = Some s' \<Longrightarrow> type_inv s \<Longrightarrow> type_inv s'"
  by (erule getBlockE) (simp_all add: type_inv_def wg_done_def)

lemma type_inv_processBlock:
  "processBlock env s = Some s' \<Longrightarrow> wf_codec (envCodec env) \<Longrightarrow> type_inv s \<Longrightarrow> type_inv s'"
  by (erule processBlockE)
    (auto simp: type_inv_def wg_done_def chan_defs dest: extract_block_typed)

lemma type_inv_saveChanges:
  assumes "saveChanges env s = Some s'" and "\<forall>r. envStore env = Some r \<longrightarrow> typed_repo r"
    and "type_inv s"
  shows "type_inv s'"
  using assms(1)
proof (cases rule: saveChangesE)
  case (sc_save changes rest r)
  with assms(3) have "typed_repo (scRepo s)" "typed_batch (Height (hd changes)) changes"
    by (simp_all add: type_inv_def)
  from typed_repo_Save [OF this sc_save(4)] assms(3) sc_save(2,5) show ?thesis
    by (simp add: type_inv_def)
qed (use assms(2,3) in \<open>simp_all add: type_inv_def wg_done_def\<close>)

lemma type_inv_step:
  "step env a s = Some s' \<Longrightarrow> wf_codec (envCodec env) \<Longrightarrow>
   \<forall>r. envStore env = Some r \<longrightarrow> typed_repo r \<Longrightarrow> type_inv s \<Longrightarrow> type_inv s'"
  by (erule stepE)
    (simp_all add: type_inv_getBlock type_inv_processBlock type_inv_saveChanges,
      simp add: type_inv_def)

lemma reachable_type_inv:
  "reachable env n s \<Longrightarrow> wf_codec (envCodec env) \<Longrightarrow>
   \<forall>r. envStore env = Some r \<longrightarrow> typed_repo r \<Longrightarrow> type_inv s"
  by (induction rule: reachable.induct) (auto intro: type_inv_start type_inv_step)

lemma dying_type_inv:
  "dying env n s \<Longrightarrow> wf_codec (envCodec env) \<Longrightarrow>
   \<forall>r. envStore env = Some r \<longrightarrow> typed_repo r \<Longrightarrow> type_inv s"
proof (induction rule: dying.induct)
  case (dying_panic s p)
  from reachable_type_inv [OF dying_panic(1,3,4)] show ?case
    by (simp add: type_inv_def panic_deferred_def wg_done_def close_chan_def pending_batch_def
        split: proc_pc.splits)
qed (auto intro: type_inv_step)

lemma observable_type_inv:
  "observable env n s \<Longrightarrow> wf_codec (envCodec env) \<Longrightarrow>
   \<forall>r. envStore env = Some r \<longrightarrow> typed_repo r \<Longrightarrow> type_inv s"
  by (auto simp: observable_def intro: reachable_type_inv dying_type_inv)

section \<open>Properties\<close>

lemma wf_longer_chain: "wf_chain longer_chain"
proof -
  have "h \<in> set (heights 0 5)" if "0 \<le>s h" "h \<le>s 4" for h :: int32
    using that by (simp add: set_heights word_sle_eq word_sless_alt)
  then have "h = 0 \<or> h = 1 \<or> h = 2 \<or> h = 3 \<or> h = 4" if "0 \<le>s h" "h \<le>s 4" for h :: int32
    using that by (fastforce simp: heights.simps int32_eval)
  then show ?thesis
    by (auto simp: wf_chain_def conv_eval scenario_defs)
qed

lemmas log_eval = batch_at_def scan_eval conv_eval tx_changes_def spends_of_def spend_of_def
  creates_of_def create_of_def enumerate_eq_zip

text \<open>
  C16: What the converter has stored, height by height, at every moment and at
  the end. Over a well-formed chain, in every state the pipeline can be in
  with the store open (failed saves and the states of a dying process
  included), the store holds at each of the first \<^verbatim>\<open>changesSaved\<close> heights
  with claim activity the batch extracted from the block of that height over
  the view of the blocks below it, and at every other height what the store
  held before. When
  \<^verbatim>\<open>wait\<close> returns, nothing has panicked and no save fails, these are all the
  heights from 0 up to the fetch limit (excluded) whose batch is not empty; at
  the heights whose block has no claim activity, and outside the range, a
  batch left by an earlier run stays.
\<close>

theorem converted_batches:
  assumes "observable env n s" and "envStore env = Some r" and "wf_chain (envChain env)"
  shows "(store_open (scPc s) \<longrightarrow>
            batches (scRepo s) h =
              (if h \<in> set (take (changesSaved (stats s))
                              (claim_heights (envCodec env) (envChain env)))
               then Some (batch_at (envCodec env) (envChain env) h) else batches r h)) \<and>
         (reachable env n s \<and> wait_returns s \<and> crashed s = None \<and>
          (\<forall>h. \<not> saveFails r h) \<longrightarrow>
            batches (scRepo s) h =
              (if 0 \<le>s h \<and> h <s fetch_limit (envChain env) \<and>
                  batch_at (envCodec env) (envChain env) h \<noteq> []
               then Some (batch_at (envCodec env) (envChain env) h) else batches r h))"
proof (intro conjI impI; (elim conjE)?)
  let ?x = "envCodec env" and ?c = "envChain env"
  assume "store_open (scPc s)"
  from store_prefix [OF assms(1,2) this] scan_prefix_batches [OF assms(3), of ?x _ r h]
  show "batches (scRepo s) h =
      (if h \<in> set (take (changesSaved (stats s)) (claim_heights ?x ?c))
       then Some (batch_at ?x ?c h) else batches r h)"
    by simp
next
  let ?x = "envCodec env" and ?c = "envChain env"
  assume re: "reachable env n s"
    and ret: "wait_returns s" "crashed s = None" "\<forall>h. \<not> saveFails r h"
  from ret(1) wait_returns_iff [OF reachable_chan_inv [OF re] ret(2)]
  have "all_returned s" by simp
  from final_store [OF re this ret(2) assms(2) ret(3) wf_chain_complete [OF assms(3)]]
  have repo: "scRepo s = convert_seq ?x ?c r" .
  show "batches (scRepo s) h =
      (if 0 \<le>s h \<and> h <s fetch_limit ?c \<and> batch_at ?x ?c h \<noteq> []
       then Some (batch_at ?x ?c h) else batches r h)"
  proof (cases "0 \<le>s h \<and> h <s fetch_limit ?c")
    case True
    with stored_batch [OF assms(3), of h ?x r] show ?thesis by (simp add: repo)
  next
    case False
    with outside_untouched [OF assms(3) False, of ?x r] show ?thesis by (auto simp: repo)
  qed
qed

theorem converted_batches_witness:
  "batches (scRepo (run example_env (rounds 9) (start (make_converter 2)))) 2 = Some batch2 \<and>
   batches (scRepo (run example_env (rounds 9) (start (make_converter 2)))) 0 = None \<and>
   batches (scRepo (run example_env (rounds 6) (start (make_converter 2)))) 1 = Some batch1 \<and>
   batches (scRepo (run example_env (rounds 6) (start (make_converter 2)))) 2 = None"
proof -
  let ?s = "run example_env (rounds 9) (start (make_converter 2))"
  let ?t = "run example_env (rounds 6) (start (make_converter 2))"
  have re: "reachable example_env 2 ?s" "reachable example_env 2 ?t"
    by (intro reachable_run reachable_start)+
  have r: "observable example_env 2 ?s" "observable example_env 2 ?t"
    by (intro reachable_observable reachable_run reachable_start)+
  have e: "envStore example_env = Some empty_repo" "wf_chain (envChain example_env)"
    using wf_example_chain by (simp_all add: example_env_def)
  have s: "wait_returns ?s" "crashed ?s = None" "\<forall>h. \<not> saveFails empty_repo h"
    by (simp_all add: conv_eval)
  have t: "store_open (scPc ?t)" "changesSaved (stats ?t) = 1"
    by (simp_all add: conv_eval)
  have b: "batch_at toy_codec example_chain 2 = batch2" "batch_at toy_codec example_chain 0 = []"
    "batch_at toy_codec example_chain 1 = batch1"
    by (simp_all add: log_eval batch1_def batch2_def)
  then have h: "claim_heights toy_codec example_chain = [1, 2]"
    by (simp add: claim_heights_def fetch_limit_def example_chain_def int32_eval heights.simps
        batch1_def batch2_def)
  from converted_batches [OF r(1) e, of 2] converted_batches [OF r(1) e, of 0]
    converted_batches [OF r(2) e, of 1] converted_batches [OF r(2) e, of 2] re(1) s t b h
  show ?thesis
    by (simp add: example_env_def fetch_limit_def example_chain_def int32_eval empty_repo_def
        batch1_def batch2_def)
qed

text \<open>
  C18: The change log stays typed. When the decoder keeps its contract and the
  store that \<^verbatim>\<open>saveChanges\<close> opens is typed, then in every state the
  pipeline can be in, a dying one included, every batch of the store is
  non-empty and each of its changes carries the height the batch is stored
  under, a claim id of 20 bytes and one of the five change types; the same
  holds of every batch in the changes channel for the height of its first
  change.
\<close>

theorem store_typed:
  assumes "observable env n s" and "wf_codec (envCodec env)"
    and "\<forall>r. envStore env = Some r \<longrightarrow> typed_repo r"
  shows "typed_repo (scRepo s) \<and>
         list_all (\<lambda>changes. typed_batch (Height (hd changes)) changes) (buf (changesChan s))"
  using observable_type_inv [OF assms] by (simp add: type_inv_def)

theorem store_typed_witness:
  "typed_repo (scRepo (run example_env (rounds 9) (start (make_converter 2)))) \<and>
   typed_batch 2 batch2"
proof -
  let ?s = "run example_env (rounds 9) (start (make_converter 2))"
  have "observable example_env 2 ?s" by (intro reachable_observable reachable_run reachable_start)
  moreover have "wf_codec (envCodec example_env)"
    "\<forall>r. envStore example_env = Some r \<longrightarrow> typed_repo r"
    using wf_toy_codec by (simp_all add: example_env_def)
  ultimately have t: "typed_repo (scRepo ?s)" using store_typed by blast
  moreover have "batches (scRepo ?s) 2 = Some batch2" by (simp add: conv_eval batch2_def)
  ultimately show ?thesis by (simp add: typed_repo_def)
qed

end
