(* ===== verification/Commands.thy ===== *)
theory Commands
  imports Replay Dump Converter
begin

text \<open>
  The command tree of \<^verbatim>\<open>chain.go\<close> (lines 26 to 54, 79 to 95, 183 to 188, 210 to
  218 and 253 to 256): the registration of the command \<^verbatim>\<open>chain\<close> with the root
  command, the command \<^verbatim>\<open>chain\<close> with its three sub-commands, the
  \<open>int32\<close> flags each of them declares with their defaults, the rule that none
  takes positional arguments, and the bodies (\<^verbatim>\<open>RunE\<close>) applied to the values
  of the flags. How \<^verbatim>\<open>cobra\<close> and \<^verbatim>\<open>pflag\<close> split a command line is library
  code: an argument arrives here as a flag with the integer written for it or
  as a positional word, and the library's rules (flags are assigned from left
  to right, an undeclared flag or a value outside \<open>int32\<close> is an error, flags
  are parsed before the positional arguments are checked) are modelled from
  their contract.
\<close>

section \<open>Flags and arguments\<close>

record flag_decl =
  flagName :: string
  flagDefault :: int32

datatype arg = Flag string int | Positional string

datatype usage_error =
  UnknownCommand string
  | UnknownFlag string
  | InvalidValue string int
  | UnexpectedArgument string

type_synonym flag_values = "string \<Rightarrow> int32"

definition Int32Var :: "string \<Rightarrow> int32 \<Rightarrow> flag_decl" where
  "Int32Var name dflt = \<lparr>flagName = name, flagDefault = dflt\<rparr>"

definition flag_defaults :: "flag_decl list \<Rightarrow> flag_values" where
  "flag_defaults fs name =
     (case find (\<lambda>f. flagName f = name) fs of None \<Rightarrow> 0 | Some f \<Rightarrow> flagDefault f)"

definition in_int32 :: "int \<Rightarrow> bool" where
  "in_int32 v \<longleftrightarrow> - (2 ^ 31) \<le> v \<and> v < 2 ^ 31"

fun assign_flags ::
  "flag_decl list \<Rightarrow> arg list \<Rightarrow> flag_values \<Rightarrow> string list
     \<Rightarrow> usage_error + (flag_values \<times> string list)" where
  "assign_flags fs [] vals pos = Inr (vals, pos)"
| "assign_flags fs (Positional p # rest) vals pos = assign_flags fs rest vals (pos @ [p])"
| "assign_flags fs (Flag name v # rest) vals pos =
     (if name \<notin> flagName ` set fs then Inl (UnknownFlag name)
      else if \<not> in_int32 v then Inl (InvalidValue name v)
      else assign_flags fs rest (vals(name := word_of_int v)) pos)"

section \<open>Commands\<close>

text \<open>
  A \<^verbatim>\<open>cobra.Command\<close> with the fields the file sets: \<^verbatim>\<open>Use\<close>, the declared
  flags, \<^verbatim>\<open>Args: cobra.NoArgs\<close> and \<^verbatim>\<open>RunE\<close>, a function of the flag values.
\<close>

record 'r subcommand =
  Use :: string
  Flags :: "flag_decl list"
  NoArgs :: bool
  RunE :: "flag_values \<Rightarrow> 'r"

definition execute :: "'r subcommand \<Rightarrow> arg list \<Rightarrow> usage_error + 'r" where
  "execute cmd args =
     (case assign_flags (Flags cmd) args (flag_defaults (Flags cmd)) [] of
        Inl e \<Rightarrow> Inl e
      | Inr (vals, pos) \<Rightarrow>
          (if NoArgs cmd \<and> pos \<noteq> [] then Inl (UnexpectedArgument (hd pos))
           else Inr (RunE cmd vals)))"

text \<open>
  What the three bodies depend on besides the flags: the store \<^verbatim>\<open>dump\<close> opens
  and the fuel of its loop, the trie operations and the world of \<^verbatim>\<open>replay\<close>,
  the world and the schedule of \<^verbatim>\<open>convert\<close>.
\<close>

record 'ct cli_world =
  dumpStore :: "repo option"
  dumpFuel :: nat
  replayOps :: "'ct trie_ops"
  replayWorld :: "'ct world"
  convertWorld :: convert_world
  schedule :: "actor list"

datatype 'ct cli_result =
  Usage usage_error
  | Dumped "dump_result option"
  | Replayed "'ct outcome"
  | ConvertedBy convert_outcome

definition NewChainDumpCommand :: "'ct cli_world \<Rightarrow> 'ct cli_result subcommand" where
  "NewChainDumpCommand w =
     \<lparr>Use = ''dump'', Flags = [Int32Var ''from'' 0, Int32Var ''to'' 0], NoArgs = True,
      RunE = (\<lambda>vals. Dumped (dump (dumpFuel w) (dumpStore w) (vals ''from'') (vals ''to'')))\<rparr>"

definition NewChainReplayCommand :: "'ct cli_world \<Rightarrow> 'ct cli_result subcommand" where
  "NewChainReplayCommand w =
     \<lparr>Use = ''replay'', Flags = [Int32Var ''from'' 0, Int32Var ''to'' 0], NoArgs = True,
      RunE = (\<lambda>vals.
        Replayed (replay_command (replayOps w) (replayWorld w) (vals ''from'') (vals ''to'')))\<rparr>"

definition NewChainConvertCommand :: "'ct cli_world \<Rightarrow> 'ct cli_result subcommand" where
  "NewChainConvertCommand w =
     \<lparr>Use = ''convert'', Flags = [Int32Var ''height'' 0], NoArgs = True,
      RunE = (\<lambda>vals. ConvertedBy (convert_command (convertWorld w) (schedule w)))\<rparr>"

text \<open>
  The command \<^verbatim>\<open>chain\<close> itself has no body: it is its name and the three
  sub-commands added to it. \<open>chain_main\<close> is what the library does with the
  words after \<^verbatim>\<open>chain\<close>: it finds the sub-command of that name and executes it.
\<close>

record 'r command_group =
  groupUse :: string
  subcommands :: "'r subcommand list"

definition NewChainCommands :: "'ct cli_world \<Rightarrow> 'ct cli_result command_group" where
  "NewChainCommands w =
     \<lparr>groupUse = ''chain'',
      subcommands = [NewChainDumpCommand w, NewChainReplayCommand w, NewChainConvertCommand w]\<rparr>"

definition chain_main :: "'ct cli_world \<Rightarrow> string \<Rightarrow> arg list \<Rightarrow> 'ct cli_result" where
  "chain_main w name args =
     (case find (\<lambda>cmd. Use cmd = name) (subcommands (NewChainCommands w)) of
        None \<Rightarrow> Usage (UnknownCommand name)
      | Some cmd \<Rightarrow> (case execute cmd args of Inl e \<Rightarrow> Usage e | Inr res \<Rightarrow> res))"

text \<open>
  \<^verbatim>\<open>init\<close> (lines 26 to 28) adds the command \<^verbatim>\<open>chain\<close> to the root command of
  the tool when the package is loaded. The root command is declared in
  another file: here it is the list of the commands added to it before, and
  \<open>root_main\<close> is the library's search for the first of them with the name
  asked for.
\<close>

definition AddCommand :: "'r command_group \<Rightarrow> 'r command_group list \<Rightarrow> 'r command_group list" where
  "AddCommand cmd rootCmd = rootCmd @ [cmd]"

definition init ::
  "'ct cli_world \<Rightarrow> 'ct cli_result command_group list \<Rightarrow> 'ct cli_result command_group list" where
  "init w rootCmd = AddCommand (NewChainCommands w) rootCmd"

definition group_main :: "'ct cli_result command_group \<Rightarrow> string \<Rightarrow> arg list \<Rightarrow> 'ct cli_result" where
  "group_main g name args =
     (case find (\<lambda>cmd. Use cmd = name) (subcommands g) of
        None \<Rightarrow> Usage (UnknownCommand name)
      | Some cmd \<Rightarrow> (case execute cmd args of Inl e \<Rightarrow> Usage e | Inr res \<Rightarrow> res))"

definition root_main ::
  "'ct cli_result command_group list \<Rightarrow> string \<Rightarrow> string \<Rightarrow> arg list \<Rightarrow> 'ct cli_result" where
  "root_main rootCmd first name args =
     (case find (\<lambda>g. groupUse g = first) rootCmd of
        None \<Rightarrow> Usage (UnknownCommand first)
      | Some g \<Rightarrow> group_main g name args)"

lemmas command_defs =
  NewChainDumpCommand_def NewChainReplayCommand_def NewChainConvertCommand_def
  NewChainCommands_def Int32Var_def flag_defaults_def

section \<open>Assigning flags\<close>

text \<open>
  Arguments that are all flags, declared and in range, are assigned from left
  to right; no other argument list reaches the body of a command that takes no
  positional arguments.
\<close>

definition good_arg :: "flag_decl list \<Rightarrow> arg \<Rightarrow> bool" where
  "good_arg fs a =
     (case a of Flag name v \<Rightarrow> name \<in> flagName ` set fs \<and> in_int32 v | Positional p \<Rightarrow> False)"

fun assign :: "arg \<Rightarrow> flag_values \<Rightarrow> flag_values" where
  "assign (Flag name v) vals = vals(name := word_of_int v)"
| "assign (Positional p) vals = vals"

fun positionals :: "arg list \<Rightarrow> string list" where
  "positionals [] = []"
| "positionals (Positional p # rest) = p # positionals rest"
| "positionals (Flag name v # rest) = positionals rest"

lemma assign_flags_good:
  "list_all (good_arg fs) args \<Longrightarrow> assign_flags fs args vals pos = Inr (fold assign args vals, pos)"
  by (induction fs args vals pos rule: assign_flags.induct) (simp_all add: good_arg_def)

lemma assign_flags_pos:
  "assign_flags fs args vals pos = Inr (vals', pos') \<Longrightarrow> pos' = pos @ positionals args"
  by (induction fs args vals pos rule: assign_flags.induct) (simp_all split: if_splits)

lemma assign_flags_Inr:
  "assign_flags fs args vals pos = Inr (vals', pos') \<Longrightarrow> positionals args = [] \<Longrightarrow>
   list_all (good_arg fs) args"
  by (induction fs args vals pos rule: assign_flags.induct)
    (simp_all add: good_arg_def split: if_splits)

lemma execute_Inr_iff:
  assumes "NoArgs cmd"
  shows "execute cmd args = Inr res \<longleftrightarrow>
           list_all (good_arg (Flags cmd)) args \<and>
           res = RunE cmd (fold assign args (flag_defaults (Flags cmd)))"
proof
  assume e: "execute cmd args = Inr res"
  then obtain vals pos where
    a: "assign_flags (Flags cmd) args (flag_defaults (Flags cmd)) [] = Inr (vals, pos)"
    and "pos = []" and res: "res = RunE cmd vals"
    using assms by (auto simp: execute_def split: sum.splits if_splits)
  with assign_flags_pos [OF a] have "positionals args = []" by simp
  from assign_flags_Inr [OF a this] have good: "list_all (good_arg (Flags cmd)) args" .
  with a res assign_flags_good [OF good] show "list_all (good_arg (Flags cmd)) args \<and>
      res = RunE cmd (fold assign args (flag_defaults (Flags cmd)))"
    by simp
next
  assume "list_all (good_arg (Flags cmd)) args \<and>
      res = RunE cmd (fold assign args (flag_defaults (Flags cmd)))"
  then show "execute cmd args = Inr res"
    by (simp add: execute_def assign_flags_good)
qed

lemma sint_word_of_int32: "in_int32 v \<Longrightarrow> sint (word_of_int v :: int32) = v"
  by (simp add: sint_sbintrunc' in_int32_def signed_take_bit_int_eq_self)

section \<open>The three commands behind the command line\<close>

lemma find_command [simp]:
  "find (\<lambda>cmd. Use cmd = ''dump'') (subcommands (NewChainCommands w)) =
     Some (NewChainDumpCommand w)"
  "find (\<lambda>cmd. Use cmd = ''replay'') (subcommands (NewChainCommands w)) =
     Some (NewChainReplayCommand w)"
  "find (\<lambda>cmd. Use cmd = ''convert'') (subcommands (NewChainCommands w)) =
     Some (NewChainConvertCommand w)"
  by (simp_all add: command_defs)

lemma chain_main_good:
  assumes "find (\<lambda>cmd. Use cmd = name) (subcommands (NewChainCommands w)) = Some cmd"
    and "NoArgs cmd"
    and "list_all (good_arg (Flags cmd)) args"
  shows "chain_main w name args = RunE cmd (fold assign args (flag_defaults (Flags cmd)))"
proof -
  from assms(3) have "execute cmd args = Inr (RunE cmd (fold assign args (flag_defaults (Flags cmd))))"
    by (simp add: execute_Inr_iff [OF assms(2)])
  with assms(1) show ?thesis by (simp add: chain_main_def)
qed

text \<open>
  After \<^verbatim>\<open>init\<close> the word \<^verbatim>\<open>chain\<close> leads to the three commands of this file,
  unless a command of that name was added to the root command before.
\<close>

lemma find_append:
  "find P (xs @ ys) = (case find P xs of None \<Rightarrow> find P ys | Some x \<Rightarrow> Some x)"
  by (induction xs) simp_all

lemma root_main_chain:
  assumes "list_all (\<lambda>g. groupUse g \<noteq> ''chain'') rootCmd"
  shows "root_main (init w rootCmd) ''chain'' name args = chain_main w name args"
proof -
  from assms have "find (\<lambda>g. groupUse g = ''chain'') rootCmd = None"
    by (simp add: find_None_iff list_all_iff)
  then show ?thesis
    by (simp add: root_main_def init_def AddCommand_def find_append group_main_def
        chain_main_def NewChainCommands_def)
qed

lemma root_main_shadowed:
  assumes "groupUse g = ''chain''"
  shows "root_main (init w (g # rootCmd)) ''chain'' name args = group_main g name args"
  using assms by (simp add: root_main_def init_def AddCommand_def)

lemma replay_empty:
  "\<not> a <s b \<Longrightarrow> replay ops r c a b ct = Inr \<lparr>trie = ct, progress = []\<rparr>"
  by (simp add: replay_def replay_loop.simps)

definition example_cli :: "toy_trie cli_world" where
  "example_cli =
     \<lparr>dumpStore = Some example_repo, dumpFuel = 10, replayOps = toy_ops,
      replayWorld = example_world, convertWorld = longer_world, schedule = rounds 12\<rparr>"

section \<open>Properties\<close>



text \<open>
  C30: A \<^verbatim>\<open>replay\<close> whose range is empty still wipes the derived state. When
  \<^verbatim>\<open>--to\<close> is not above \<^verbatim>\<open>--from\<close>, and so when neither flag is given (both
  default to 0), the command deletes the four derived repositories, creates and
  closes the trie, reads no batch, verifies no block and returns success with
  the empty trie.
\<close>

theorem replay_empty_range:
  assumes "in_int32 a" and "in_int32 b" and "b \<le> a"
    and "list_all (removeAll (replayWorld w)) derived_repos"
    and "openChainRepo (replayWorld w) = Some r" and "newClaimTrie (replayWorld w) = Some ct"
    and "loadBlocksDB (replayWorld w)" and "loadChain (replayWorld w) = Some c"
  shows "chain_main w ''replay'' [Flag ''from'' a, Flag ''to'' b] =
           Replayed \<lparr>deleted = derived_repos, trieClosed = True,
                     result = Inr \<lparr>trie = ct, progress = []\<rparr>\<rparr> \<and>
         chain_main w ''replay'' [] =
           Replayed \<lparr>deleted = derived_repos, trieClosed = True,
                     result = Inr \<lparr>trie = ct, progress = []\<rparr>\<rparr>"
proof -
  let ?cmd = "NewChainReplayCommand w"
  have flags: "Flags ?cmd = [Int32Var ''from'' 0, Int32Var ''to'' 0]" "NoArgs ?cmd"
    by (simp_all add: NewChainReplayCommand_def)
  from assms(1-3) have 1: "\<not> (word_of_int a :: int32) <s word_of_int b"
    by (simp add: word_sless_alt sint_word_of_int32)
  have 2: "\<not> (0 :: int32) <s 0" by (simp add: word_sless_alt)
  have "list_all (good_arg (Flags ?cmd)) [Flag ''from'' a, Flag ''to'' b]"
    "list_all (good_arg (Flags ?cmd)) []"
    using assms(1,2) by (simp_all add: flags good_arg_def Int32Var_def)
  from this [THEN chain_main_good [OF find_command(2) flags(2)]] assms(4-8) 1 2
  show ?thesis
    by (simp add: NewChainReplayCommand_def replay_command_result replay_empty command_defs)
qed

theorem replay_empty_range_witness:
  "chain_main example_cli ''replay'' [Flag ''from'' 3, Flag ''to'' 1] =
     Replayed \<lparr>deleted = derived_repos, trieClosed = True,
               result = Inr \<lparr>trie = toy_new, progress = []\<rparr>\<rparr>"
proof -
  have "in_int32 3" "in_int32 1" "(1::int) \<le> 3"
    "list_all (removeAll (replayWorld example_cli)) derived_repos"
    "openChainRepo (replayWorld example_cli) = Some example_repo"
    "newClaimTrie (replayWorld example_cli) = Some toy_new"
    "loadBlocksDB (replayWorld example_cli)"
    "loadChain (replayWorld example_cli) = Some example_chain"
    by (simp_all add: in_int32_def example_cli_def example_world_def derived_repos_def)
  from replay_empty_range [OF this] show ?thesis by simp
qed

end
