(* ===== verification/Process.thy ===== *)
theory Process
  imports Progress
begin

text \<open>
  The \<^verbatim>\<open>convert\<close> command as a process: the main goroutine (the body of the
  command, lines 218 to 250) beside the goroutines it starts, and the calls
  they make on the block database and on the change store. The process keeps
  the log of these calls. The theory shows that under every schedule the log
  follows the protocol of the two handles: nothing is used before it is opened
  or after it is closed, although \<^verbatim>\<open>db.Close\<close> and the reads of \<^verbatim>\<open>getBlock\<close> are
  in different goroutines. Theory \<open>Call_Order\<close> shows in which order the calls
  come, theory \<open>Process_Ends\<close> that the process ends.
\<close>

section \<open>Calls\<close>

text \<open>
  The calls of the command and its goroutines on the two resources:
  \<^verbatim>\<open>loadBlocksDB()\<close> when it succeeds (line 220), the deferred \<^verbatim>\<open>db.Close()\<close> (line
  224), \<^verbatim>\<open>cb.chain.BlockByHeight(ht)\<close> (line 305), \<^verbatim>\<open>chainrepo.NewPebble\<close> when it
  succeeds (line 405), the deferred \<^verbatim>\<open>chainRepo.Close()\<close> (line 410) and
  \<^verbatim>\<open>chainRepo.Save(changes[0].Height, changes)\<close> (line 413).
\<close>

datatype call =
  CallLoadBlocksDB
  | CallDBClose
  | CallBlockByHeight int32
  | CallNewPebble
  | CallRepoClose
  | CallSave int32

text \<open>
  What a step of a goroutine calls. \<^verbatim>\<open>getBlock\<close> reads a block at the head of
  its loop. \<^verbatim>\<open>saveChanges\<close> opens the store, saves the batch it has received
  under the height of its first change, and closes the store when it returns
  after the store was opened; deferred calls run also when the goroutine
  panics. \<^verbatim>\<open>processBlock\<close> and \<^verbatim>\<open>reportStats\<close> work in memory.
\<close>

definition getBlock_calls :: "converter \<Rightarrow> call list" where
  "getBlock_calls s =
     (case gbPc s of
        GbLoop \<Rightarrow> if gbHt s <s gbTo s then [CallBlockByHeight (gbHt s)] else []
      | _ \<Rightarrow> [])"

definition saveChanges_calls :: "conv_env \<Rightarrow> converter \<Rightarrow> call list" where
  "saveChanges_calls env s =
     (case scPc s of
        ScOpen \<Rightarrow> (case envStore env of None \<Rightarrow> [] | Some r \<Rightarrow> [CallNewPebble])
      | ScRecv \<Rightarrow>
          (case buf (changesChan s) of
             [] \<Rightarrow> if closed (changesChan s) then [CallRepoClose] else []
           | changes # rest \<Rightarrow>
               (case changes of
                  [] \<Rightarrow> [CallRepoClose]
                | chg # _ \<Rightarrow>
                    (case Save (scRepo s) (Height chg) changes of
                       Inl e \<Rightarrow> [CallSave (Height chg), CallRepoClose]
                     | Inr r \<Rightarrow> [CallSave (Height chg)])))
      | _ \<Rightarrow> [])"

definition calls_of :: "conv_env \<Rightarrow> actor \<Rightarrow> converter \<Rightarrow> call list" where
  "calls_of env a s =
     (case a of
        GetBlock \<Rightarrow> getBlock_calls s
      | SaveChanges \<Rightarrow> saveChanges_calls env s
      | _ \<Rightarrow> [])"

section \<open>The process\<close>

text \<open>
  The positions of the main goroutine: before \<^verbatim>\<open>loadBlocksDB\<close>, before
  \<^verbatim>\<open>loadChain\<close> (the deferred \<^verbatim>\<open>db.Close\<close> is registered), before \<^verbatim>\<open>start\<close>, in
  \<^verbatim>\<open>wait\<close>, and returned with the error of the command or with \<^verbatim>\<open>nil\<close>.
\<close>

datatype main_pc =
  MainLoadDB | MainLoadChain | MainStart | MainWait | MainReturned "convert_error option"

text \<open>
  \<open>conv\<close> is the converter of lines 231 to 238; nothing reads it before
  \<^verbatim>\<open>start\<close>. \<open>calls\<close> is the log.
\<close>

record process =
  mainPc :: main_pc
  conv :: converter
  calls :: "call list"

definition init_process :: "nat \<Rightarrow> process" where
  "init_process n = \<lparr>mainPc = MainLoadDB, conv = make_converter n, calls = []\<rparr>"

definition world_env :: "convert_world \<Rightarrow> chain \<Rightarrow> conv_env" where
  "world_env w c = \<lparr>envCodec = cwCodec w, envChain = c, envStore = cwStore w\<rparr>"

definition main_step :: "convert_world \<Rightarrow> process \<Rightarrow> process option" where
  "main_step w p =
     (case mainPc p of
        MainLoadDB \<Rightarrow>
          (if cwBlocksDB w
           then Some (p\<lparr>mainPc := MainLoadChain, calls := calls p @ [CallLoadBlocksDB]\<rparr>)
           else Some (p\<lparr>mainPc := MainReturned (Some ConvertLoadBlocksFailed)\<rparr>))
      | MainLoadChain \<Rightarrow>
          (case cwChain w of
             None \<Rightarrow>
               Some (p\<lparr>mainPc := MainReturned (Some ConvertLoadChainFailed),
                       calls := calls p @ [CallDBClose]\<rparr>)
           | Some c \<Rightarrow> Some (p\<lparr>mainPc := MainStart\<rparr>))
      | MainStart \<Rightarrow> Some (p\<lparr>mainPc := MainWait, conv := start (conv p)\<rparr>)
      | MainWait \<Rightarrow>
          (if wait_returns (conv p)
           then Some (p\<lparr>mainPc := MainReturned None, calls := calls p @ [CallDBClose]\<rparr>)
           else None)
      | MainReturned e \<Rightarrow> None)"

text \<open>
  The goroutines exist once \<^verbatim>\<open>start\<close> has run. They are not stopped when the
  command returns: that they make no call then is a theorem, not a part of the
  model.
\<close>

definition started :: "process \<Rightarrow> bool" where
  "started p \<longleftrightarrow> mainPc p = MainWait \<or> mainPc p = MainReturned None"

definition goroutine_step :: "convert_world \<Rightarrow> actor \<Rightarrow> process \<Rightarrow> process option" where
  "goroutine_step w a p =
     (case cwChain w of
        None \<Rightarrow> None
      | Some c \<Rightarrow>
          (if started p
           then (case step (world_env w c) a (conv p) of
                   None \<Rightarrow> None
                 | Some s' \<Rightarrow>
                     Some (p\<lparr>conv := s', calls := calls p @ calls_of (world_env w c) a (conv p)\<rparr>))
           else None))"

datatype thread = MainThread | Goroutine actor

text \<open>
  A panic of a goroutine ends the process, the main goroutine included.
\<close>

definition proc_step :: "convert_world \<Rightarrow> thread \<Rightarrow> process \<Rightarrow> process option" where
  "proc_step w t p =
     (if crashed (conv p) \<noteq> None then None
      else case t of MainThread \<Rightarrow> main_step w p | Goroutine a \<Rightarrow> goroutine_step w a p)"

fun proc_run :: "convert_world \<Rightarrow> thread list \<Rightarrow> process \<Rightarrow> process" where
  "proc_run w [] p = p"
| "proc_run w (t # ts) p =
     (case proc_step w t p of None \<Rightarrow> proc_run w ts p | Some p' \<Rightarrow> proc_run w ts p')"

lemmas process_defs =
  getBlock_calls_def saveChanges_calls_def calls_of_def init_process_def world_env_def
  main_step_def started_def goroutine_step_def proc_step_def

section \<open>The protocol of the handles\<close>

text \<open>
  The contract of the two handles, as an automaton over the calls: a handle
  is opened once, used while it is open and closed once.
\<close>

record handles =
  dbOpen :: bool
  repoOpen :: bool

definition no_handles :: handles where
  "no_handles = \<lparr>dbOpen = False, repoOpen = False\<rparr>"

fun allowed :: "handles \<Rightarrow> call \<Rightarrow> handles option" where
  "allowed h CallLoadBlocksDB = (if dbOpen h then None else Some (h\<lparr>dbOpen := True\<rparr>))"
| "allowed h CallDBClose = (if dbOpen h then Some (h\<lparr>dbOpen := False\<rparr>) else None)"
| "allowed h (CallBlockByHeight ht) = (if dbOpen h then Some h else None)"
| "allowed h CallNewPebble = (if repoOpen h then None else Some (h\<lparr>repoOpen := True\<rparr>))"
| "allowed h CallRepoClose = (if repoOpen h then Some (h\<lparr>repoOpen := False\<rparr>) else None)"
| "allowed h (CallSave ht) = (if repoOpen h then Some h else None)"

fun conforms :: "handles \<Rightarrow> call list \<Rightarrow> handles option" where
  "conforms h [] = Some h"
| "conforms h (c # cs) = (case allowed h c of None \<Rightarrow> None | Some h' \<Rightarrow> conforms h' cs)"

lemma conforms_append:
  "conforms h (xs @ ys) = (case conforms h xs of None \<Rightarrow> None | Some h' \<Rightarrow> conforms h' ys)"
  by (induction xs arbitrary: h) (auto split: option.splits)

text \<open>
  The handles a state of the process holds, read off the positions: the
  database from its opening to the return of the command, the store while
  \<^verbatim>\<open>saveChanges\<close> is in its loop.
\<close>

definition held :: "process \<Rightarrow> handles" where
  "held p =
     \<lparr>dbOpen = (mainPc p = MainLoadChain \<or> mainPc p = MainStart \<or> mainPc p = MainWait),
      repoOpen = (scPc (conv p) = ScRecv)\<rparr>"

section \<open>Invariants of the process\<close>

text \<open>
  Before \<^verbatim>\<open>start\<close> the converter is as it was built; afterwards it is a
  reachable state of the pipeline; once the command has returned \<^verbatim>\<open>nil\<close>, all
  three goroutines of the wait group have returned.
\<close>

definition proc_inv :: "nat \<Rightarrow> convert_world \<Rightarrow> process \<Rightarrow> bool" where
  "proc_inv n w p \<longleftrightarrow>
     (if started p
      then (\<exists>c. cwChain w = Some c \<and> reachable (world_env w c) n (conv p))
      else conv p = make_converter n) \<and>
     (mainPc p = MainStart \<longrightarrow> cwChain w \<noteq> None) \<and>
     (mainPc p = MainReturned None \<longrightarrow> all_returned (conv p) \<and> crashed (conv p) = None)"

lemma all_returned_step:
  assumes "step env a s = Some s'" and "all_returned s"
  shows "a = ReportStats" and "all_returned s'" and "crashed s' = None"
  using assms
  by (auto simp: all_returned_def gb_returned_def sc_returned_def
      elim!: stepE elim: goroutineE)

lemma proc_inv_init: "proc_inv n w (init_process n)"
  by (simp add: proc_inv_def process_defs)

lemma proc_inv_main:
  assumes "main_step w p = Some p'" and "proc_inv n w p" and "crashed (conv p) = None"
  shows "proc_inv n w p'"
proof (cases "mainPc p")
  case MainWait
  with assms(2) obtain c where c: "cwChain w = Some c" "reachable (world_env w c) n (conv p)"
    by (auto simp: proc_inv_def started_def)
  from MainWait assms(1) have "wait_returns (conv p)"
    by (simp add: main_step_def split: if_splits)
  with wait_returns_iff [OF reachable_chan_inv [OF c(2)] assms(3)]
  have "all_returned (conv p)" by simp
  with MainWait assms c show ?thesis
    by (auto simp: proc_inv_def main_step_def started_def split: if_splits)
next
  case MainStart
  with assms show ?thesis
    by (auto simp: proc_inv_def main_step_def started_def intro: reachable_start)
qed (use assms in \<open>auto simp: proc_inv_def main_step_def started_def split: if_splits option.splits\<close>)

lemma proc_inv_goroutine:
  assumes "goroutine_step w a p = Some p'" and "proc_inv n w p"
  shows "proc_inv n w p'"
proof -
  from assms(1) obtain c s' where c: "cwChain w = Some c" and st: "started p"
    and s': "step (world_env w c) a (conv p) = Some s'"
    and p': "p' = p\<lparr>conv := s', calls := calls p @ calls_of (world_env w c) a (conv p)\<rparr>"
    by (auto simp: goroutine_step_def split: option.splits if_splits)
  from assms(2) st c have r: "reachable (world_env w c) n (conv p)"
    by (simp add: proc_inv_def)
  from reachable_step [OF r s'] all_returned_step(2,3) [OF s'] assms(2) c st show ?thesis
    by (auto simp: proc_inv_def p' started_def)
qed

lemma proc_inv_step: "proc_step w t p = Some p' \<Longrightarrow> proc_inv n w p \<Longrightarrow> proc_inv n w p'"
  by (cases t) (auto simp: proc_step_def split: if_splits intro: proc_inv_main proc_inv_goroutine)

lemma proc_inv_run: "proc_inv n w p \<Longrightarrow> proc_inv n w (proc_run w ts p)"
  by (induction ts arbitrary: p) (auto split: option.splits intro: proc_inv_step)


section \<open>Every log follows the protocol\<close>

lemma goroutine_conforms:
  assumes "step env a s = Some s'" and "chan_inv n s" and "db \<or> gb_returned (gbPc s)"
  shows "conforms \<lparr>dbOpen = db, repoOpen = (scPc s = ScRecv)\<rparr> (calls_of env a s) =
           Some \<lparr>dbOpen = db, repoOpen = (scPc s' = ScRecv)\<rparr>"
  using assms(1)
proof (cases rule: stepE)
  case get
  from get(3) assms(3) show ?thesis
    by (cases rule: getBlockE)
      (auto simp: calls_of_def getBlock_calls_def get(2) wg_done_def gb_returned_def)
next
  case process
  from process(3) show ?thesis
    by (cases rule: processBlockE) (auto simp: calls_of_def process(2) wg_done_def)
next
  case save
  from save(3) assms(2) show ?thesis
    by (cases rule: saveChangesE)
      (auto simp: calls_of_def saveChanges_calls_def save(2) wg_done_def chan_inv_def
        neq_Nil_conv)
next
  case report
  then show ?thesis by (simp add: calls_of_def)
qed

lemma conforms_step:
  assumes "proc_step w t p = Some p'" and "proc_inv n w p"
  shows "\<exists>new. calls p' = calls p @ new \<and> conforms (held p) new = Some (held p')"
proof (cases t)
  case MainThread
  with assms show ?thesis
    by (cases "mainPc p")
      (auto simp: proc_step_def main_step_def held_def proc_inv_def started_def start_def
        make_converter_def split: if_splits option.splits)
next
  case (Goroutine a)
  with assms(1) obtain c s' where c: "cwChain w = Some c" and st: "started p"
    and s': "step (world_env w c) a (conv p) = Some s'"
    and p': "p' = p\<lparr>conv := s', calls := calls p @ calls_of (world_env w c) a (conv p)\<rparr>"
    by (auto simp: proc_step_def goroutine_step_def split: option.splits if_splits)
  from assms(2) st c have r: "reachable (world_env w c) n (conv p)"
    and "mainPc p = MainWait \<or> gb_returned (gbPc (conv p))"
    by (auto simp: proc_inv_def started_def all_returned_def)
  from goroutine_conforms [OF s' reachable_chan_inv [OF r] this(2)] st show ?thesis
    by (auto simp: p' held_def started_def)
qed

lemma conforms_run:
  assumes "proc_inv n w p" and "conforms h (calls p) = Some (held p)"
  shows "conforms h (calls (proc_run w ts p)) = Some (held (proc_run w ts p))"
  using assms
proof (induction ts arbitrary: p)
  case (Cons t ts)
  show ?case
  proof (cases "proc_step w t p")
    case None
    with Cons show ?thesis by simp
  next
    case (Some p')
    from conforms_step [OF Some Cons.prems(1)] Cons.prems(2)
    have "conforms h (calls p') = Some (held p')" by (auto simp: conforms_append)
    from Cons.IH [OF proc_inv_step [OF Some Cons.prems(1)] this] Some show ?thesis by simp
  qed
qed simp

section \<open>The process and the runs of the pipeline\<close>

text \<open>
  Once \<^verbatim>\<open>start\<close> has run, the converter of the process is the pipeline under
  the goroutines the schedule names.
\<close>

fun goroutines :: "thread list \<Rightarrow> actor list" where
  "goroutines [] = []"
| "goroutines (Goroutine a # ts) = a # goroutines ts"
| "goroutines (MainThread # ts) = goroutines ts"

lemma goroutines_map [simp]: "goroutines (map Goroutine sch) = sch"
  by (induction sch) simp_all

lemma proc_run_append: "proc_run w (ts @ us) p = proc_run w us (proc_run w ts p)"
  by (induction ts arbitrary: p) (auto split: option.splits)

lemma proc_step_started:
  assumes "started p" and "cwChain w = Some c"
  shows "conv (case proc_step w t p of None \<Rightarrow> p | Some p' \<Rightarrow> p') =
           run (world_env w c) (goroutines [t]) (conv p)"
    and "started (case proc_step w t p of None \<Rightarrow> p | Some p' \<Rightarrow> p')"
  using assms
  by (cases t;
      auto simp: proc_step_def main_step_def goroutine_step_def started_def step_def
        split: if_splits option.splits)+

lemma proc_run_Cons:
  "proc_run w (t # ts) p = proc_run w ts (case proc_step w t p of None \<Rightarrow> p | Some p' \<Rightarrow> p')"
  by (simp split: option.splits)

lemma goroutines_Cons: "goroutines (t # ts) = goroutines [t] @ goroutines ts"
  by (cases t) simp_all

lemma started_run: "started p \<Longrightarrow> cwChain w = Some c \<Longrightarrow> started (proc_run w ts p)"
proof (induction ts arbitrary: p)
  case (Cons t ts)
  from Cons.IH [OF proc_step_started(2) [OF Cons.prems] Cons.prems(2), of t]
  show ?case by (simp only: proc_run_Cons)
qed simp

lemma conv_proc_run:
  assumes "started p" and "cwChain w = Some c"
  shows "conv (proc_run w ts p) = run (world_env w c) (goroutines ts) (conv p)"
  using assms(1)
proof (induction ts arbitrary: p)
  case (Cons t ts)
  from Cons.IH [OF proc_step_started(2) [OF Cons.prems assms(2)], of t]
    proc_step_started(1) [OF Cons.prems assms(2), of t]
  show ?case
    by (simp only: proc_run_Cons goroutines_Cons [of t ts] run_append)
qed simp

lemma crashed_make_converter [simp]: "crashed (make_converter n) = None"
  by (simp add: make_converter_def)

lemma crashed_start [simp]: "crashed (start s) = crashed s"
  by (simp add: start_def)

lemma proc_run_boot:
  assumes "cwBlocksDB w" and "cwChain w = Some c"
  shows "proc_run w (MainThread # MainThread # MainThread # ts) (init_process n) =
           proc_run w ts
             \<lparr>mainPc = MainWait, conv = start (make_converter n), calls = [CallLoadBlocksDB]\<rparr>"
  using assms by (simp add: proc_step_def main_step_def init_process_def)

lemma mainPc_goroutine:
  "proc_step w (Goroutine a) p = Some p' \<Longrightarrow> mainPc p' = mainPc p"
  by (auto simp: proc_step_def goroutine_step_def split: if_splits option.splits)

lemma proc_run_goroutines:
  "mainPc (proc_run w (map Goroutine sch) p) = mainPc p"
  by (induction sch arbitrary: p) (auto split: option.splits dest: mainPc_goroutine)

lemma proc_fetch_inv:
  assumes "proc_inv n w p" and "cwChain w = Some c"
  shows "fetch_inv (world_env w c) (conv p)"
proof (cases "started p")
  case True
  with assms show ?thesis by (auto simp: proc_inv_def intro: reachable_fetch_inv)
next
  case False
  with assms(1) fetch_inv_start [of "world_env w c" n] show ?thesis
    by (simp add: proc_inv_def fetch_inv_def start_def)
qed


section \<open>The schedule of a plain run\<close>

text \<open>
  The schedules in which the main goroutine runs up to \<^verbatim>\<open>wait\<close>, the goroutines
  follow \<open>sch\<close>, and the main goroutine gets its turn again.
\<close>

definition command_schedule :: "actor list \<Rightarrow> thread list" where
  "command_schedule sch =
     [MainThread, MainThread, MainThread] @ map Goroutine sch @ [MainThread]"

lemma command_schedule_run:
  assumes "cwBlocksDB w" and "cwChain w = Some c"
    and "s = run (world_env w c) sch (start (make_converter n))"
    and "p = proc_run w (command_schedule sch) (init_process n)"
  shows "conv p = s"
    and "mainPc p = (if crashed s = None \<and> wait_returns s then MainReturned None else MainWait)"
proof -
  let ?p1 = "\<lparr>mainPc = MainWait, conv = start (make_converter n), calls = [CallLoadBlocksDB]\<rparr>"
  let ?p2 = "proc_run w (map Goroutine sch) ?p1"
  have "command_schedule sch =
      MainThread # MainThread # MainThread # (map Goroutine sch @ [MainThread])"
    by (simp add: command_schedule_def)
  then have run: "p = proc_run w [MainThread] ?p2"
    by (simp only: assms(4) proc_run_boot [OF assms(1,2)] proc_run_append)
  have "started ?p1" by (simp add: started_def)
  from conv_proc_run [OF this assms(2), of "map Goroutine sch"] assms(3)
  have c2: "conv ?p2 = s" by simp
  have m2: "mainPc ?p2 = MainWait" by (simp add: proc_run_goroutines)
  from c2 m2 show "conv p = s"
    and "mainPc p = (if crashed s = None \<and> wait_returns s then MainReturned None else MainWait)"
    by (auto simp: run proc_step_def main_step_def)
qed

text \<open>
  A command that fails to load returns at once, whatever the schedule: with
  nothing opened when the database does not open, with the database closed
  again when the chain does not load.
\<close>

lemma returned_stays: "mainPc p = MainReturned (Some e) \<Longrightarrow> proc_run w ts p = p"
proof (induction ts)
  case (Cons t ts)
  then have "proc_step w t p = None"
    by (cases t)
      (simp_all add: proc_step_def main_step_def goroutine_step_def started_def
        split: option.splits)
  with Cons show ?case by simp
qed simp

lemma command_load_errors:
  "\<not> cwBlocksDB w \<Longrightarrow>
   proc_run w (MainThread # ts) (init_process n) =
     \<lparr>mainPc = MainReturned (Some ConvertLoadBlocksFailed), conv = make_converter n, calls = []\<rparr>"
  "cwBlocksDB w \<Longrightarrow> cwChain w = None \<Longrightarrow>
   proc_run w (MainThread # MainThread # ts) (init_process n) =
     \<lparr>mainPc = MainReturned (Some ConvertLoadChainFailed), conv = make_converter n,
      calls = [CallLoadBlocksDB, CallDBClose]\<rparr>"
  by (simp_all add: proc_step_def main_step_def init_process_def returned_stays)

text \<open>
  The command of theory \<open>Converter\<close> is this process seen from outside.
\<close>

lemma convert_command_process:
  assumes "cwBlocksDB w" and "cwChain w = Some c"
    and "p = proc_run w (command_schedule sch) (init_process 1000)"
  shows "convert_command w sch =
           (case crashed (conv p) of
              Some e \<Rightarrow> Panicked e
            | None \<Rightarrow> if mainPc p = MainReturned None then Converted (conv p) else Waiting (conv p))"
  using command_schedule_run [OF assms(1,2) refl assms(3)] assms(1,2)
  by (simp add: convert_command_def new_converter_def world_env_def Let_def split: option.splits)

lemma held_returned:
  assumes "proc_inv n w p" and "mainPc p = MainReturned e"
  shows "held p = no_handles"
proof (cases e)
  case None
  with assms have "sc_returned (scPc (conv p))" by (simp add: proc_inv_def all_returned_def)
  with assms(2) show ?thesis by (auto simp: held_def no_handles_def sc_returned_def)
next
  case (Some err)
  with assms have "conv p = make_converter n" by (simp add: proc_inv_def started_def)
  with assms(2) show ?thesis by (simp add: held_def no_handles_def make_converter_def)
qed

lemmas process_eval = process_defs command_schedule_def held_def no_handles_def

section \<open>Properties\<close>

text \<open>
  C11: Every log follows the protocol of the handles. Whatever the world, the
  capacity of the channels and the schedule of the main goroutine and the
  goroutines it starts, the calls made so far are allowed one after the other
  from the state in which nothing is open: the block database is opened at
  most once, no block is read before it is open or after \<^verbatim>\<open>db.Close\<close> (which is
  in another goroutine than the reads), the store is opened at most once,
  nothing is saved before it is open or after \<^verbatim>\<open>chainRepo.Close\<close>, and nothing is
  closed twice. The handles open afterwards are those the positions say: the
  database from \<^verbatim>\<open>loadBlocksDB\<close> until the command returns, the store while
  \<^verbatim>\<open>saveChanges\<close> is in its loop. A command that has returned, with an error or
  without, holds no handle.
\<close>

theorem calls_conform:
  assumes "p = proc_run w ts (init_process n)"
  shows "conforms no_handles (calls p) = Some (held p) \<and>
         ((\<exists>e. mainPc p = MainReturned e) \<longrightarrow> held p = no_handles)"
proof -
  have "proc_inv n w p" unfolding assms by (intro proc_inv_run proc_inv_init)
  moreover have "conforms no_handles (calls p) = Some (held p)"
    unfolding assms
    by (rule conforms_run [OF proc_inv_init])
      (simp add: init_process_def held_def no_handles_def make_converter_def)
  ultimately show ?thesis by (auto dest: held_returned)
qed

theorem calls_conform_witness:
  "calls (proc_run longer_world (command_schedule (uneven 12)) (init_process 2)) =
     [CallLoadBlocksDB, CallNewPebble, CallBlockByHeight 0, CallBlockByHeight 1,
      CallBlockByHeight 2, CallSave 1, CallBlockByHeight 3, CallSave 2, CallSave 3,
      CallRepoClose, CallDBClose] \<and>
   conforms no_handles
     (calls (proc_run longer_world (command_schedule (uneven 12)) (init_process 2))) =
     Some no_handles"
proof -
  let ?p = "proc_run longer_world (command_schedule (uneven 12)) (init_process 2)"
  have "mainPc ?p = MainReturned None"
    and log: "calls ?p =
      [CallLoadBlocksDB, CallNewPebble, CallBlockByHeight 0, CallBlockByHeight 1,
       CallBlockByHeight 2, CallSave 1, CallBlockByHeight 3, CallSave 2, CallSave 3,
       CallRepoClose, CallDBClose]"
    by (simp_all add: process_eval conv_eval uneven_numeral)
  with calls_conform [OF refl, of longer_world "command_schedule (uneven 12)" 2]
  show ?thesis by simp
qed

end
