(* ===== verification/Call_Order.thy ===== *)
theory Call_Order
  imports Process Converted_Log "HOL-Library.Sublist"
begin

text \<open>
  The order of the calls of the \<^verbatim>\<open>convert\<close> process. The heights read from the
  block database and the heights saved to the store are read off the log and
  off the state of the pipeline, and compared with the sequential scan: the
  reads are an initial segment of the heights below the fetch limit, the saves
  an initial segment of the heights whose block has claim activity, and both
  are complete when the command has returned.
\<close>

section \<open>The order of the reads and of the saves\<close>

text \<open>
  The heights read from the block database and the heights saved to the
  store, in the order of the log.
\<close>

fun reads :: "call list \<Rightarrow> int32 list" where
  "reads [] = []"
| "reads (CallBlockByHeight ht # cs) = ht # reads cs"
| "reads (c # cs) = reads cs"

fun saves :: "call list \<Rightarrow> int32 list" where
  "saves [] = []"
| "saves (CallSave ht # cs) = ht # saves cs"
| "saves (c # cs) = saves cs"

lemma reads_append [simp]: "reads (xs @ ys) = reads xs @ reads ys"
  by (induction xs rule: reads.induct) simp_all

lemma saves_append [simp]: "saves (xs @ ys) = saves xs @ saves ys"
  by (induction xs rule: saves.induct) simp_all

text \<open>
  The same two lists read off the state of the pipeline: the heights below
  the loop counter of \<^verbatim>\<open>getBlock\<close> and the one it has just asked for; the keys
  of the batches \<^verbatim>\<open>saveChanges\<close> has taken from the changes channel.
\<close>

definition asked :: "get_pc \<Rightarrow> int32 \<Rightarrow> int32 list" where
  "asked pc ht = (case pc of GbSend b \<Rightarrow> [ht] | GbLoadFailed \<Rightarrow> [ht] | _ \<Rightarrow> [])"

definition read_heights :: "converter \<Rightarrow> int32 list" where
  "read_heights s = heights 0 (gbHt s) @ asked (gbPc s) (gbHt s)"

definition saved_keys :: "conv_env \<Rightarrow> converter \<Rightarrow> int32 list" where
  "saved_keys env s =
     map (\<lambda>changes. Height (hd changes))
       (take (taken (scPc s) (changesSaved (stats s))) (made env s))"

lemma asked_simps [simp]:
  "asked GbStart ht = []" "asked GbLoop ht = []" "asked (GbSend b) ht = [ht]"
  "asked GbDone ht = []" "asked GbLoadFailed ht = [ht]"
  by (simp_all add: asked_def)

lemma reads_getBlock:
  assumes "getBlock env s = Some s'" and "fetch_inv env s"
  shows "read_heights s' = read_heights s @ reads (getBlock_calls s)"
  using assms(1)
proof (cases rule: getBlockE)
  case gb_start
  with assms(2) show ?thesis
    by (simp add: read_heights_def getBlock_calls_def fetch_inv_def fetch_ok_def)
next
  case (gb_send b)
  with assms(2) have "fetch_ok (envChain env) (GbSend b) (gbTo s) (gbHt s) (blocksFetched (stats s))"
    by (simp add: fetch_inv_def)
  from heights_snoc [OF fetch_ok_sendD(2,1) [OF this]] gb_send show ?thesis
    by (simp add: read_heights_def getBlock_calls_def)
qed (simp_all add: read_heights_def getBlock_calls_def wg_done_def)

lemma reads_step:
  assumes "step env a s = Some s'" and "fetch_inv env s"
  shows "read_heights s' = read_heights s @ reads (calls_of env a s)"
  using assms(1)
proof (cases rule: stepE)
  case get
  with assms(2) show ?thesis by (simp add: reads_getBlock calls_of_def)
next
  case process
  from process(3) have "gbHt s' = gbHt s" "gbPc s' = gbPc s"
    by (cases rule: processBlockE; simp add: wg_done_def)+
  then show ?thesis by (simp add: read_heights_def calls_of_def process(2))
next
  case save
  from save(3) have "gbHt s' = gbHt s" "gbPc s' = gbPc s"
    by (cases rule: saveChangesE; simp add: wg_done_def)+
  moreover have "reads (saveChanges_calls env s) = []"
    by (simp add: saveChanges_calls_def split: save_pc.splits list.splits option.splits sum.splits)
  ultimately show ?thesis by (simp add: read_heights_def calls_of_def save(2))
next
  case report
  then show ?thesis by (simp add: read_heights_def calls_of_def)
qed


lemma saves_getBlock_calls [simp]: "saves (getBlock_calls s) = []"
  by (simp add: getBlock_calls_def split: get_pc.splits)

lemma made_getBlock:
  assumes "getBlock env s = Some s'" and "fetch_inv env s" and "flow_inv env s"
    and "crashed s = None"
  shows "made env s' = made env s"
  using assms(1)
proof (cases rule: getBlockE)
  case gb_start
  with assms(2) show ?thesis by (simp add: made_def fetch_inv_def fetch_ok_def)
next
  case (gb_send b)
  let ?fs = "fetched (envChain env) (gbHt s)"
  from assms(2) gb_send(1) have "fetched (envChain env) (gbHt s + 1) = ?fs @ [b]"
    by (auto simp: fetch_inv_def fetch_ok_def intro: fetched_snoc)
  moreover from assms(3,4) have "window ?fs (blocksProcessed (stats s)) (buf (blockChan s))"
    by (simp add: flow_inv_def blocks_flow_def)
  ultimately show ?thesis
    by (simp add: made_def gb_send(3) window_take_push del: take_append)
qed (simp_all add: made_def wg_done_def)

lemma made_processBlock:
  assumes "processBlock env s = Some s'" and "flow_inv env s" and "crashed s = None"
  shows "\<exists>ys. made env s' = made env s @ ys"
  using assms(1)
proof (cases rule: processBlockE)
  case (pb_extract b rest view' changes)
  with assms(2,3) have "blocks_flow (envCodec env) (fetched (envChain env) (gbHt s))
      (blocksProcessed (stats s)) (b # rest) (pbView s)"
    by (simp add: flow_inv_def)
  from blocks_flow_extract(2) [OF this pb_extract(3)] show ?thesis
    by (simp add: made_def pb_extract(4))
qed (simp_all add: made_def wg_done_def)

lemma saves_saveChanges:
  assumes "saveChanges env s = Some s'" and "flow_inv env s" and "chan_inv n s"
    and "crashed s = None"
  shows "saved_keys env s' = saved_keys env s @ saves (saveChanges_calls env s)"
proof -
  from assms(2,4) have
    w: "window (made env s) (taken (scPc s) (changesSaved (stats s)))
          (buf (changesChan s) @ pending_batch (pbPc s))"
    and st: "store_flow (envStore env) (made env s) (scPc s) (changesSaved (stats s)) (scRepo s)"
    by (simp_all add: flow_inv_def)
  have pop: "take (Suc (changesSaved (stats s))) (made env s) =
      take (changesSaved (stats s)) (made env s) @ [changes]"
    if "scPc s = ScRecv" "buf (changesChan s) = changes # rest" for changes rest
    using w that by (auto intro: window_take_pop)
  from assms(1) show ?thesis
  proof (cases rule: saveChangesE)
    case (sc_index_panic rest)
    with assms(3) show ?thesis by (simp add: chan_inv_def)
  next
    case (sc_save_failed changes rest e)
    with pop [OF sc_save_failed(1,2)] show ?thesis
      by (auto simp: saved_keys_def saveChanges_calls_def made_def wg_done_def neq_Nil_conv)
  next
    case (sc_save changes rest r)
    with pop [OF sc_save(1,2)] show ?thesis
      by (auto simp: saved_keys_def saveChanges_calls_def made_def neq_Nil_conv)
  qed (use st in \<open>auto simp: saved_keys_def saveChanges_calls_def made_def wg_done_def
      store_flow_def\<close>)
qed

lemma saves_step:
  assumes "step env a s = Some s'" and "fetch_inv env s" and "flow_inv env s"
    and "chan_inv n s"
  shows "saved_keys env s' = saved_keys env s @ saves (calls_of env a s)"
  using assms(1)
proof (cases rule: stepE)
  case get
  from get(3) have "scPc s' = scPc s" "changesSaved (stats s') = changesSaved (stats s)"
    by (cases rule: getBlockE; simp add: wg_done_def)+
  with made_getBlock [OF get(3) assms(2,3) get(1)] show ?thesis
    by (simp add: saved_keys_def calls_of_def get(2))
next
  case process
  from process(3) have "scPc s' = scPc s" "changesSaved (stats s') = changesSaved (stats s)"
    by (cases rule: processBlockE; simp add: wg_done_def)+
  with made_processBlock [OF process(3) assms(3) process(1)]
    taken_le_made [OF assms(3) process(1)]
  show ?thesis by (auto simp: saved_keys_def calls_of_def process(2))
next
  case save
  with saves_saveChanges [OF save(3) assms(3,4) save(1)] show ?thesis
    by (simp add: calls_of_def)
next
  case report
  then show ?thesis by (simp add: saved_keys_def calls_of_def made_def)
qed

text \<open>
  The log of the process and the state of its pipeline agree.
\<close>

definition log_inv :: "convert_world \<Rightarrow> process \<Rightarrow> bool" where
  "log_inv w p \<longleftrightarrow>
     reads (calls p) = read_heights (conv p) \<and>
     (\<forall>c. cwChain w = Some c \<longrightarrow> saves (calls p) = saved_keys (world_env w c) (conv p))"

lemma log_inv_init: "log_inv w (init_process n)"
  by (simp add: log_inv_def init_process_def read_heights_def saved_keys_def make_converter_def)

lemma log_inv_step:
  assumes "proc_step w t p = Some p'" and "proc_inv n w p" and "log_inv w p"
  shows "log_inv w p'"
proof (cases t)
  case MainThread
  with assms(1,3) show ?thesis
    by (cases "mainPc p")
      (auto simp: proc_step_def main_step_def log_inv_def read_heights_def saved_keys_def
        made_def start_def split: if_splits option.splits)
next
  case (Goroutine a)
  with assms(1) obtain c s' where c: "cwChain w = Some c" and st: "started p"
    and s': "step (world_env w c) a (conv p) = Some s'"
    and p': "p' = p\<lparr>conv := s', calls := calls p @ calls_of (world_env w c) a (conv p)\<rparr>"
    by (auto simp: proc_step_def goroutine_step_def split: option.splits if_splits)
  from assms(2) st c have r: "reachable (world_env w c) n (conv p)"
    by (simp add: proc_inv_def)
  note fe = reachable_fetch_inv [OF r]
  from reads_step [OF s' fe]
    saves_step [OF s' fe reachable_flow_inv [OF r] reachable_chan_inv [OF r]] assms(3) c
  show ?thesis by (simp add: log_inv_def p')
qed

lemma log_inv_run: "proc_inv n w p \<Longrightarrow> log_inv w p \<Longrightarrow> log_inv w (proc_run w ts p)"
  by (induction ts arbitrary: p)
    (auto split: option.splits intro: log_inv_step proc_inv_step)


section \<open>The sequential order\<close>

text \<open>
  What the pipeline has read and saved is an initial segment of what the
  sequential scan reads (the heights below the fetch limit) and saves
  (\<open>claim_heights\<close>).
\<close>

lemma prefix_saved_keys:
  assumes "fetch_inv env s" and "wf_chain (envChain env)"
  shows "prefix (saved_keys env s) (claim_heights (envCodec env) (envChain env))"
  unfolding saved_keys_def produced_keys [OF assms(2), symmetric]
  by (intro map_mono_prefix prefix_order.trans [OF take_is_prefix prefix_made [OF assms(1)]])

lemma prefix_read_heights:
  assumes "fetch_inv env s"
  shows "prefix (read_heights s) (heights 0 (fetch_limit (envChain env)))"
proof -
  let ?L = "fetch_limit (envChain env)"
  from assms have f: "fetch_ok (envChain env) (gbPc s) (gbTo s) (gbHt s) (blocksFetched (stats s))"
    by (simp add: fetch_inv_def)
  then have ge: "0 \<le>s gbHt s" and le: "gbHt s \<le>s ?L \<or> gbHt s = 0"
    unfolding fetch_ok_def by (auto simp: word_sle_eq)
  have below: "prefix (heights 0 (gbHt s)) (heights 0 ?L)"
    using ge le heights_split [of 0 "gbHt s" ?L] by auto
  have asked: "prefix (heights 0 (gbHt s) @ [gbHt s]) (heights 0 ?L)"
    if "gbHt s <s gbTo s" "gbTo s = ?L"
  proof -
    from that have "gbHt s + 1 \<le>s ?L" by (simp add: sless_succ_sle)
    moreover from ge that have "0 \<le>s gbHt s + 1" by (simp add: word_sle_eq sless_sint_succ)
    ultimately show ?thesis
      using heights_split [of 0 "gbHt s + 1" ?L] heights_snoc [OF ge that(1)] that(2)
      by auto
  qed
  from f below asked show ?thesis
    by (cases "gbPc s") (auto simp: read_heights_def fetch_ok_def)
qed

lemma saved_keys_read:
  assumes "fetch_inv env s" and "wf_chain (envChain env)"
  shows "set (saved_keys env s) \<subseteq> set (read_heights s)"
proof -
  let ?c = "envChain env" and ?bs = "take (blocksProcessed (stats s)) (fetched (envChain env) (gbHt s))"
  from assms(1) have "gbHt s \<le>s fetch_limit ?c \<or> gbHt s = 0"
    unfolding fetch_inv_def fetch_ok_def by auto
  with assms(2) fetch_limit_le_best [of ?c] have "gbHt s \<le>s bestHeight ?c"
    by (auto simp: wf_chain_def word_sle_eq)
  from fetched_heights [OF assms(2) this]
  have "blockHeight ` set ?bs \<subseteq> set (heights 0 (gbHt s))"
    by (auto simp: set_heights dest: in_set_takeD)
  moreover have "set (map (\<lambda>changes. Height (hd changes)) (produced (envCodec env) ?bs)) \<subseteq>
      blockHeight ` set ?bs"
    using block_batches_keys [of ?bs "envCodec env" NewUtxoViewpoint]
    by (auto simp: produced_def list_all_iff)
  ultimately have "set (map (\<lambda>changes. Height (hd changes)) (made env s)) \<subseteq>
      set (heights 0 (gbHt s))"
    unfolding made_def by (rule subset_trans [rotated])
  then show ?thesis
    using set_take_subset [of "taken (scPc s) (changesSaved (stats s))" "made env s"]
    by (auto simp: saved_keys_def read_heights_def)
qed


section \<open>A command that has returned\<close>

lemma returned_state:
  assumes "proc_inv n w p" and "mainPc p = MainReturned None" and "cwChain w = Some c"
    and "wf_chain c" and "cwStore w = Some r" and "\<forall>h. \<not> saveFails r h"
  shows "gbPc (conv p) = GbDone" and "pbPc (conv p) = PbDone" and "scPc (conv p) = ScDone"
    and "reachable (world_env w c) n (conv p)" and "crashed (conv p) = None"
proof -
  from assms(1-3) show r: "reachable (world_env w c) n (conv p)"
    and ar: "crashed (conv p) = None"
    by (auto simp: proc_inv_def started_def)
  from assms(1,2) have ret: "all_returned (conv p)" by (simp add: proc_inv_def)
  then show "pbPc (conv p) = PbDone" by (simp add: all_returned_def)
  from no_store_failure [OF r ar, of r] assms(5,6) ret show "scPc (conv p) = ScDone"
    by (simp add: world_env_def all_returned_def sc_returned_def)
  from no_load_failure [OF r] wf_chain_complete [OF assms(4)] ret show "gbPc (conv p) = GbDone"
    by (simp add: world_env_def all_returned_def gb_returned_def)
qed

lemma returned_log:
  assumes "proc_inv n w p" and "log_inv w p" and "mainPc p = MainReturned None"
    and "cwChain w = Some c" and "wf_chain c" and "cwStore w = Some r"
    and "\<forall>h. \<not> saveFails r h"
  shows "reads (calls p) = heights 0 (fetch_limit c)"
    and "saves (calls p) = claim_heights (cwCodec w) c"
    and "scRepo (conv p) = convert_seq (cwCodec w) c r"
    and "held p = no_handles"
proof -
  note st = returned_state [OF assms(1,3-7)]
  from reachable_fetch_inv [OF st(4)] st(1)
  have "heights 0 (gbHt (conv p)) = heights 0 (fetch_limit c)"
    by (auto simp: fetch_inv_def world_env_def dest: fetch_ok_done_heights)
  with assms(2) st(1) show "reads (calls p) = heights 0 (fetch_limit c)"
    by (simp add: log_inv_def read_heights_def)
  from final_made [OF st(4,5,1,2,3)] assms(2,4) st(3) produced_keys [OF assms(5), of "cwCodec w"]
  show "saves (calls p) = claim_heights (cwCodec w) c"
    by (simp add: log_inv_def saved_keys_def world_env_def)
  from assms(1,3) have "all_returned (conv p)" by (simp add: proc_inv_def)
  from final_store [OF st(4) this st(5), of r] assms(6,7) wf_chain_complete [OF assms(5)]
  show "scRepo (conv p) = convert_seq (cwCodec w) c r" by (simp add: world_env_def)
  from assms(3) st(3) show "held p = no_handles" by (simp add: held_def no_handles_def)
qed

section \<open>Properties\<close>

text \<open>
  C13: The pipeline reads and saves in the order of the sequential scan. With
  a chain that has a block at every height up to its tip, under every
  schedule: the heights read from the block database so far are an initial
  segment of 0, 1, 2, ... below the fetch limit; the heights saved to the store
  so far are an initial segment of the heights whose block has claim activity,
  in ascending order; and every height saved has been read before. When the
  command has returned \<^verbatim>\<open>nil\<close> and the store opened and did not fail, both
  lists are complete: every height below the limit was read once and every
  block with claim activity was saved once.
\<close>

theorem calls_in_order:
  assumes "cwChain w = Some c" and "wf_chain c" and "p = proc_run w ts (init_process n)"
  shows "prefix (reads (calls p)) (heights 0 (fetch_limit c)) \<and>
         prefix (saves (calls p)) (claim_heights (cwCodec w) c) \<and>
         set (saves (calls p)) \<subseteq> set (reads (calls p)) \<and>
         (mainPc p = MainReturned None \<and> cwStore w = Some r \<and> (\<forall>h. \<not> saveFails r h) \<longrightarrow>
            reads (calls p) = heights 0 (fetch_limit c) \<and>
            saves (calls p) = claim_heights (cwCodec w) c)"
proof -
  have inv: "proc_inv n w p" unfolding assms(3) by (intro proc_inv_run proc_inv_init)
  have li: "log_inv w p" unfolding assms(3) by (rule log_inv_run [OF proc_inv_init log_inv_init])
  with assms(1) have log: "reads (calls p) = read_heights (conv p)"
    "saves (calls p) = saved_keys (world_env w c) (conv p)"
    by (simp_all add: log_inv_def)
  note fe = proc_fetch_inv [OF inv assms(1)]
  from prefix_read_heights [OF fe] prefix_saved_keys [OF fe] saved_keys_read [OF fe] assms(2)
  have "prefix (reads (calls p)) (heights 0 (fetch_limit c))"
    "prefix (saves (calls p)) (claim_heights (cwCodec w) c)"
    "set (saves (calls p)) \<subseteq> set (reads (calls p))"
    by (simp_all add: log world_env_def)
  moreover have "reads (calls p) = heights 0 (fetch_limit c) \<and>
      saves (calls p) = claim_heights (cwCodec w) c"
    if "mainPc p = MainReturned None" "cwStore w = Some r" "\<forall>h. \<not> saveFails r h"
    using returned_log(1,2) [OF inv li that(1) assms(1,2) that(2,3)] ..
  ultimately show ?thesis by blast
qed

theorem calls_in_order_witness:
  "reads (calls (proc_run longer_world (command_schedule (uneven 5)) (init_process 2))) = [0, 1] \<and>
   prefix [0, 1] (heights 0 (fetch_limit longer_chain)) \<and>
   saves (calls (proc_run longer_world (command_schedule (uneven 12)) (init_process 2))) =
     claim_heights toy_codec longer_chain"
proof -
  let ?p = "proc_run longer_world (command_schedule (uneven 5)) (init_process 2)"
  let ?q = "proc_run longer_world (command_schedule (uneven 12)) (init_process 2)"
  have w: "cwChain longer_world = Some longer_chain" "cwStore longer_world = Some empty_repo"
    "cwCodec longer_world = toy_codec" "\<forall>h. \<not> saveFails empty_repo h"
    by (simp_all add: longer_world_def empty_repo_def)
  have "reads (calls ?p) = [0, 1]" "mainPc ?q = MainReturned None"
    by (simp_all add: process_eval conv_eval uneven_numeral)
  with calls_in_order [OF w(1) wf_longer_chain refl, of "command_schedule (uneven 5)" 2 empty_repo]
    calls_in_order [OF w(1) wf_longer_chain refl, of "command_schedule (uneven 12)" 2 empty_repo]
    w(2-4)
  show ?thesis by simp
qed

end
