(* ===== verification/Process_Ends.thy ===== *)
theory Process_Ends
  imports Process
begin

text \<open>
  Liveness of the \<^verbatim>\<open>convert\<close> process: which schedules of the main goroutine and
  the others bring it to an end, and what the ends are. The fairness of theory
  \<open>Progress\<close> is asked of the goroutines of the wait group only; the main
  goroutine needs three turns before them and one after.
\<close>

section \<open>Schedules that let the command end\<close>

text \<open>
  The main goroutine needs three turns to reach \<^verbatim>\<open>wait\<close>; whatever else the
  schedule names in between has not started yet.
\<close>

definition turns_to_wait :: "main_pc \<Rightarrow> nat" where
  "turns_to_wait pc = (case pc of MainLoadDB \<Rightarrow> 3 | MainLoadChain \<Rightarrow> 2 | MainStart \<Rightarrow> 1 | _ \<Rightarrow> 0)"

lemma reaches_wait:
  assumes "cwBlocksDB w" and "cwChain w = Some c"
  shows "proc_inv n w p \<Longrightarrow> \<forall>e. mainPc p \<noteq> MainReturned (Some e) \<Longrightarrow>
         turns_to_wait (mainPc p) \<le> count_list ts MainThread \<Longrightarrow> started (proc_run w ts p)"
proof (induction ts arbitrary: p)
  case Nil
  then show ?case by (cases "mainPc p") (simp_all add: turns_to_wait_def started_def)
next
  case (Cons t ts)
  let ?p' = "case proc_step w t p of None \<Rightarrow> p | Some p' \<Rightarrow> p'"
  have inv: "proc_inv n w ?p'"
    using Cons.prems(1) by (auto split: option.splits intro: proc_inv_step)
  have "started p \<or> crashed (conv p) = None"
    using Cons.prems(1) by (auto simp: proc_inv_def make_converter_def split: if_splits)
  with Cons.prems(2,3) assms
  have "\<forall>e. mainPc ?p' \<noteq> MainReturned (Some e)"
    and "turns_to_wait (mainPc ?p') \<le> count_list ts MainThread"
    by (cases t; cases "mainPc p";
        auto simp: proc_step_def main_step_def goroutine_step_def turns_to_wait_def started_def
          split: option.splits if_splits)+
  from Cons.IH [OF inv this] show ?case by (simp only: proc_run_Cons)
qed

text \<open>
  What no later step changes: a panic, the return of the command, and the
  deadlock behind a failed store, in which the main goroutine stays in
  \<^verbatim>\<open>wait\<close>. A main goroutine whose goroutines have all returned returns at its
  next turn.
\<close>

lemma crashed_stays: "crashed (conv p) \<noteq> None \<Longrightarrow> proc_run w ts p = p"
  by (induction ts) (simp_all add: proc_step_def)

lemma returned_nil_stays:
  "mainPc p = MainReturned None \<Longrightarrow> mainPc (proc_run w ts p) = MainReturned None"
proof (induction ts arbitrary: p)
  case (Cons t ts)
  then have "mainPc (case proc_step w t p of None \<Rightarrow> p | Some p' \<Rightarrow> p') = MainReturned None"
    by (cases t)
      (auto simp: proc_step_def main_step_def goroutine_step_def split: option.splits if_splits)
  from Cons.IH [OF this] show ?case by (simp only: proc_run_Cons)
qed simp

lemma main_returns:
  "proc_inv n w p \<Longrightarrow> mainPc p = MainWait \<Longrightarrow> all_returned (conv p) \<Longrightarrow>
   crashed (conv p) = None \<Longrightarrow> MainThread \<in> set ts \<Longrightarrow>
   mainPc (proc_run w ts p) = MainReturned None"
proof (induction ts arbitrary: p)
  case (Cons t ts)
  from Cons.prems(1,2) obtain c where c: "cwChain w = Some c"
    and r: "reachable (world_env w c) n (conv p)"
    by (auto simp: proc_inv_def started_def)
  show ?case
  proof (cases t)
    case MainThread
    from wait_returns_iff [OF reachable_chan_inv [OF r] Cons.prems(4)] Cons.prems(2-4)
    have "mainPc (case proc_step w t p of None \<Rightarrow> p | Some p' \<Rightarrow> p') = MainReturned None"
      by (simp add: MainThread proc_step_def main_step_def)
    then show ?thesis by (simp only: proc_run_Cons returned_nil_stays)
  next
    case (Goroutine a)
    show ?thesis
    proof (cases "proc_step w t p")
      case None
      with Cons Goroutine show ?thesis by simp
    next
      case (Some p')
      with Goroutine c have s': "step (world_env w c) a (conv p) = Some (conv p')"
        and m: "mainPc p' = mainPc p"
        by (auto simp: proc_step_def goroutine_step_def split: option.splits if_splits)
      from Cons.IH [OF proc_inv_step [OF Some Cons.prems(1)]] m Cons.prems(2,3,5) Goroutine
        all_returned_step(2,3) [OF s'] Some
      show ?thesis by simp
    qed
  qed
qed simp

lemma blocked_stays:
  "proc_inv n w p \<Longrightarrow> started p \<Longrightarrow> blocked_on_store (conv p) \<Longrightarrow>
   mainPc (proc_run w ts p) = MainWait \<and> blocked_on_store (conv (proc_run w ts p))"
proof (induction ts arbitrary: p)
  case Nil
  then show ?case
    by (auto simp: proc_inv_def started_def blocked_on_store_def all_returned_def)
next
  case (Cons t ts)
  from Cons.prems(1,2) obtain c where c: "cwChain w = Some c"
    and r: "reachable (world_env w c) n (conv p)"
    by (auto simp: proc_inv_def)
  let ?p' = "case proc_step w t p of None \<Rightarrow> p | Some p' \<Rightarrow> p'"
  have inv: "proc_inv n w ?p'"
    using Cons.prems(1) by (auto split: option.splits intro: proc_inv_step)
  from blocked_on_store_run [OF Cons.prems(3), of "world_env w c" "goroutines [t]"]
  have "blocked_on_store (conv ?p')"
    by (simp only: proc_step_started(1) [OF Cons.prems(2) c])
  from Cons.IH [OF inv proc_step_started(2) [OF Cons.prems(2) c] this]
  show ?case by (simp only: proc_run_Cons)
qed

lemma schedule_ends:
  assumes "0 < n" and "cwBlocksDB w" and "cwChain w = Some c"
    and "3 \<le> count_list ts1 MainThread"
    and "5 * nat (sint (fetch_limit c)) + 5 \<le> fair_rounds [] (goroutines ts2)"
    and "MainThread \<in> set ts3"
    and "p = proc_run w (ts1 @ ts2 @ ts3) (init_process n)"
  shows "crashed (conv p) \<noteq> None \<or>
         mainPc p = MainReturned None \<or>
         mainPc p = MainWait \<and> blocked_on_store (conv p)"
    and "started p"
proof -
  let ?env = "world_env w c"
  let ?p1 = "proc_run w ts1 (init_process n)" 
  let ?p2 = "proc_run w ts2 ?p1"
  have p: "p = proc_run w ts3 ?p2" by (simp add: assms(7) proc_run_append)
  have inv1: "proc_inv n w ?p1" by (intro proc_inv_run proc_inv_init)
  then have inv2: "proc_inv n w ?p2" by (rule proc_inv_run)
  from reaches_wait [OF assms(2,3) proc_inv_init, of n ts1] assms(4)
  have st1: "started ?p1" by (simp add: init_process_def turns_to_wait_def)
  with inv1 assms(3) have r1: "reachable ?env n (conv ?p1)" by (simp add: proc_inv_def)
  note st2 = started_run [OF st1 assms(3), of ts2]
  from assms(5) have fair: "5 * nat (sint (fetch_limit (envChain ?env))) + 5 \<le>
      fair_rounds [] (goroutines ts2)"
    by (simp add: world_env_def)
  from started_run [OF st2 assms(3), of ts3] show "started p" by (simp add: p)
  from fair_cases [OF assms(1) r1 fair conv_proc_run [OF st1 assms(3)]]
  show "crashed (conv p) \<noteq> None \<or> mainPc p = MainReturned None \<or>
      mainPc p = MainWait \<and> blocked_on_store (conv p)"
  proof (elim disjE)
    assume "crashed (conv ?p2) \<noteq> None"
    then show ?thesis by (simp add: p crashed_stays)
  next
    assume b: "blocked_on_store (conv ?p2)"
    from blocked_stays [OF inv2 st2 b] show ?thesis by (simp add: p)
  next
    assume ar: "all_returned (conv ?p2)"
    show ?thesis
    proof (cases "crashed (conv ?p2)")
      case None
      from st2 main_returns [OF inv2 _ ar None assms(6)] returned_nil_stays [of ?p2 w ts3]
      show ?thesis by (auto simp: p started_def)
    next
      case (Some e)
      then show ?thesis by (simp add: p crashed_stays)
    qed
  qed
qed

section \<open>Properties\<close>

text \<open>
  C15: Every schedule that is fair to the goroutines lets the process come to
  one of three ends. When the block database and the chain have loaded and the
  channels have a capacity of at least one, take any schedule in which the
  main goroutine is named three times, then the three goroutines of the wait
  group get five rounds per height below the fetch limit and five more, then
  the main goroutine is named once more, with anything else named anywhere in
  between. After it a goroutine has panicked; or the command has returned
  \<^verbatim>\<open>nil\<close> and the database and the store are closed; or the main goroutine is
  still in \<^verbatim>\<open>wait\<close>, \<^verbatim>\<open>processBlock\<close> is blocked behind a store that failed, and
  the block database stays open. With a store that opens and does not fail and
  blocks that are all fine, it is the second.
\<close>

theorem process_ends:
  assumes "0 < n" and "cwBlocksDB w" and "cwChain w = Some c"
    and "3 \<le> count_list ts1 MainThread"
    and "5 * nat (sint (fetch_limit c)) + 5 \<le> fair_rounds [] (goroutines ts2)"
    and "MainThread \<in> set ts3"
    and "p = proc_run w (ts1 @ ts2 @ ts3) (init_process n)"
  shows "(crashed (conv p) \<noteq> None \<or>
          mainPc p = MainReturned None \<and> held p = no_handles \<or>
          mainPc p = MainWait \<and> blocked_on_store (conv p) \<and> dbOpen (held p)) \<and>
         (cwStore w = Some r \<and> (\<forall>h. \<not> saveFails r h) \<and>
          blocks_ok (cwCodec w) NewUtxoViewpoint (fetched c (fetch_limit c)) \<longrightarrow>
            mainPc p = MainReturned None)"
proof -
  note ends = schedule_ends [OF assms]
  have inv: "proc_inv n w p" unfolding assms(7) by (intro proc_inv_run proc_inv_init)
  with ends(2) assms(3) have r: "reachable (world_env w c) n (conv p)"
    by (simp add: proc_inv_def)
  have "mainPc p = MainReturned None"
    if "cwStore w = Some r" "\<forall>h. \<not> saveFails r h"
      "blocks_ok (cwCodec w) NewUtxoViewpoint (fetched c (fetch_limit c))"
  proof -
    from panic_needs_bad_block [OF r] that(3) have nc: "crashed (conv p) = None"
      by (cases "crashed (conv p)") (auto simp: world_env_def)
    from no_store_failure [OF r nc, of r] that(1,2) have "\<not> blocked_on_store (conv p)"
      by (simp add: blocked_on_store_def store_failed_def world_env_def)
    with ends(1) nc show ?thesis by simp
  qed
  with ends(1) held_returned [OF inv, of None] show ?thesis by (auto simp: held_def)
qed

theorem process_ends_witness:
  "mainPc (proc_run longer_world (command_schedule (uneven 25)) (init_process 2)) =
     MainReturned None \<and>
   mainPc (proc_run (longer_world\<lparr>cwStore := None\<rparr>) (command_schedule (uneven 25))
     (init_process 1)) = MainWait \<and>
   blocked_on_store (conv (proc_run (longer_world\<lparr>cwStore := None\<rparr>)
     (command_schedule (uneven 25)) (init_process 1)))"
proof -
  let ?w = "longer_world\<lparr>cwStore := None\<rparr>"
  let ?p = "proc_run longer_world (command_schedule (uneven 25)) (init_process 2)"
  let ?q = "proc_run ?w (command_schedule (uneven 25)) (init_process 1)"
  have two: "0 < (2::nat)" by simp
  have w: "cwBlocksDB longer_world" "cwChain longer_world = Some longer_chain"
    "cwBlocksDB ?w" "cwChain ?w = Some longer_chain"
    by (simp_all add: longer_world_def)
  have sch: "3 \<le> count_list [MainThread, MainThread, MainThread] MainThread"
    "MainThread \<in> set [MainThread]"
    "5 * nat (sint (fetch_limit longer_chain)) + 5 \<le>
       fair_rounds [] (goroutines (map Goroutine (uneven 25)))"
    by (simp_all add: conv_eval fair_rounds_uneven)
  have ok: "cwStore longer_world = Some empty_repo" "\<forall>h. \<not> saveFails empty_repo h"
    "blocks_ok (cwCodec longer_world) NewUtxoViewpoint
       (fetched longer_chain (fetch_limit longer_chain))"
    by (simp_all add: conv_eval scan_eval tx_ok_def txin_ok_def txout_ok_def)
  have "crashed (conv ?q) = None" "mainPc ?q \<noteq> MainReturned None"
    by (simp_all add: process_eval conv_eval uneven_numeral)
  with process_ends [OF two w(1,2) sch(1,3,2) refl, of empty_repo] ok
    process_ends [OF zero_less_one w(3,4) sch(1,3,2) refl, of empty_repo]
  show ?thesis by (simp add: command_schedule_def)
qed

end
