(* ===== verification/Spec2Isabelle.thy ===== *)
theory Spec2Isabelle
  imports Replay Dump Progress Converted_Log Commands Call_Order Process_Ends
begin

text \<open>
  \<^bold>\<open>A verification development for the chain commands of the claim trie tool\<close>
  (\<^verbatim>\<open>src/claimtrie/cmd/cmd/chain.go\<close>).

  \<^bold>\<open>The program.\<close> The file implements the command \<^verbatim>\<open>chain\<close> with three
  sub-commands over a height-keyed log of claim changes. \<^verbatim>\<open>convert\<close> scans the
  blocks of the ledger with three goroutines joined by two buffered channels
  (\<^verbatim>\<open>getBlock\<close> fetches blocks, \<^verbatim>\<open>processBlock\<close> extracts the changes of each
  block, \<^verbatim>\<open>saveChanges\<close> writes each non-empty batch to the change log) while
  \<^verbatim>\<open>reportStats\<close> logs three counters. \<^verbatim>\<open>replay\<close> loads the batches height by
  height, applies every change to a fresh claim trie, commits a block and
  compares the trie's Merkle hash with the one in the block header
  (\<^verbatim>\<open>appendBlock\<close>). \<^verbatim>\<open>dump\<close> prints the batches of a height range. The ledger,
  the script decoder, the change log store, the claim trie and the command-line
  library are packages the file only calls.

  \<^bold>\<open>The theories.\<close>
  \<^item> \<open>Chain_Prelude\<close>: the machine integers of the source (\<open>int32\<close> heights
    compared as signed words, \<open>uint32\<close> indices, \<open>int64\<close> amounts), the facts
    about counting in \<open>int32\<close>, the list \<open>heights a b\<close> of the values a loop
    \<^verbatim>\<open>for ht := a; ht < b; ht++\<close> visits, queues as windows of a growing list,
    and the fact collections.
  \<^item> \<open>Block_Source\<close>: outpoints, transactions, blocks, the unspent-output view
    (\<open>AddTxOuts\<close>, \<open>LookupEntry\<close>), the decoder's results and the block source,
    modelled from their contracts because their code is in other packages.
  \<^item> \<open>Change\<close>: the change record, well-formedness of a change for a height
    (\<open>wf_change\<close>) and the parameters of the extractor (the decoder and
    \<^verbatim>\<open>NewClaimID\<close>) with their contract \<open>wf_codec\<close>.
  \<^item> \<open>Chain_Repo\<close>: the change log store from its contract, a map from
    heights to batches with \<open>Load\<close> and \<open>Save\<close>; the heights at which a load or
    a save fails are part of the store. \<open>typed_repo\<close> is the typing of a store:
    every batch non-empty and well-formed for its key.
  \<^item> \<open>Claim_Trie\<close>: the claim trie as the record \<open>trie_ops\<close> of the eight
    operations the file calls, over any type of trie states, with the contract
    \<open>wf_trie\<close> (a commit raises the height by one, a change keeps it).
  \<^item> \<open>Example_Ledger\<close>: a toy codec, a toy trie and the specification's
    three-block scenario with its change log, used only to instantiate
    theorems.
  \<^item> \<open>Extractor\<close>: the block loop of \<^verbatim>\<open>processBlock\<close> (lines 321 to 392):
    \<open>spend_change\<close> and \<open>create_change\<close> are the two switch statements,
    \<open>process_txin\<close>/\<open>process_txins\<close> the input loop, \<open>process_txout\<close>/
    \<open>process_txouts\<close> the output loop, \<open>process_tx\<close>/\<open>process_txs\<close> the
    transaction loop, \<open>extract_block\<close> one block. Panics of the source (nil
    entry, nil script) are the values \<open>MissingInput\<close> and \<open>MalformedScript\<close>.
  \<^item> \<open>Replay\<close>: the loop of \<^verbatim>\<open>replay\<close> (lines 138 to 178) and \<^verbatim>\<open>appendBlock\<close>
    (lines 190 to 208): \<open>load_changes\<close>, \<open>apply_change\<close> (the switch),
    \<open>apply_changes\<close>, \<open>appendBlock\<close>, \<open>report_progress\<close>, \<open>replay_step\<close> (one
    height), \<open>replay_loop\<close> and \<open>replay\<close>. The state is the trie and the progress
    lines printed; every error return is a value of \<open>replay_error\<close>.
    \<open>replay_command\<close> is the body of the command (lines 97 to 178): the
    deletion of the derived repositories, the set-up, the loop, the deferred
    close. \<open>replay_batches\<close> is the loop over a given list of batches, the
    reference for replaying a log whose content is known.
  \<^item> \<open>Dump\<close>: the body of \<^verbatim>\<open>dump\<close> (lines 55 to 75): \<open>dump_loop\<close> and \<open>dump\<close>,
    with the printed changes as the output.
  \<^item> \<open>Converter\<close>: the pipeline (lines 231 to 238 and 258 to 430). The record
    \<open>converter\<close> holds the fields of \<^verbatim>\<open>chainConverter\<close> (the two channels as
    queues with a capacity and a closed flag, the wait group as a counter, the
    statistics), the local variables of the goroutines and their positions.
    \<open>getBlock\<close>, \<open>processBlock\<close>, \<open>saveChanges\<close> and \<open>reportStats\<close> each take
    one atomic step, from one channel operation to the next, or are blocked
    (\<open>None\<close>); \<open>processBlock\<close> calls \<open>extract_block\<close> of \<open>Extractor\<close>;
    \<open>reportStats\<close> reads the three counters in three steps (\<open>report_pc\<close>),
    since its log call reads them without synchronisation. \<open>step\<close>
    dispatches on the goroutine's name, \<open>run\<close> executes a schedule, \<open>reachable\<close>
    is the inductive closure of \<open>step\<close> from \<open>start (make_converter n)\<close>;
    \<open>convert_command\<close> is the body of the command (lines 218 to 250). One
    elimination rule per goroutine lists its transitions; the invariant
    \<open>chan_inv\<close> is proved over them. \<open>panic_deferred\<close>, \<open>dying\<close> and
    \<open>observable\<close> describe what goes on while a panic unwinds.
  \<^item> \<open>Conversion\<close>: the sequential scan \<open>convert_seq\<close> (fetch the blocks below
    \<open>fetch_limit\<close>, extract them in order over one view, store every non-empty
    batch) as the specification of the pipeline, and the invariants that tie
    a reachable state to a prefix of the scan: \<open>fetch_inv\<close> for the loop of
    \<open>getBlock\<close>, \<open>flow_inv\<close> for the two queues and the store (the counters
    \<open>blocksProcessed\<close> and \<open>changesSaved\<close> are the positions of the consumers
    in the lists of fetched blocks and produced batches), \<open>done_inv\<close> for the
    goroutines that have returned, \<open>crash_inv\<close> for panics. \<open>scan_prefix\<close> is
    the scan stopped after its first \<open>k\<close> batches, the specification of the
    store of a conversion that has not ended.
  \<^item> \<open>Converted_Log\<close>: the content of the converted log height by height
    (\<open>batch_at\<close>, the batch the scan extracts from the block of a height;
    \<open>claim_heights\<close>, the heights the scan saves, in order) and the typing
    invariant \<open>type_inv\<close> of the batches in the changes channel and in the
    store.
  \<^item> \<open>Progress\<close>: the measure \<open>conv_measure\<close> that every step of a goroutine of
    the wait group lowers, the characterisation of blocking, the states in which no
    goroutine can step (\<open>quiescent\<close>: final, or \<open>blocked_on_store\<close>), fair schedules (\<open>fair_rounds\<close> counts the
    rounds of a schedule, \<open>potential\<close> is what a round lowers), the statistics
    and the lines logged (\<open>pending_line\<close> is the line \<open>reportStats\<close> is about
    to log).
  \<^item> \<open>Process\<close>: the \<^verbatim>\<open>convert\<close> command as a process (lines 218 to 250 beside
    the goroutines): \<open>main_step\<close> is the main goroutine from \<^verbatim>\<open>loadBlocksDB\<close> to
    the deferred \<^verbatim>\<open>db.Close\<close>, \<open>goroutine_step\<close> a step of a started goroutine,
    \<open>proc_step\<close> and \<open>proc_run\<close> the interleaving of both over schedules of
    threads. The process keeps the log of the calls on the block database and
    on the store (\<open>getBlock_calls\<close>, \<open>saveChanges_calls\<close>: \<^verbatim>\<open>BlockByHeight\<close>,
    \<^verbatim>\<open>NewPebble\<close>, \<^verbatim>\<open>Save\<close> and the deferred \<^verbatim>\<open>chainRepo.Close\<close>). \<open>conforms\<close> is the
    protocol of the two handles as an automaton over the log.
  \<^item> \<open>Call_Order\<close>: \<open>reads\<close> and \<open>saves\<close>, the heights read and saved in the
    order of the log, against the heights the sequential scan reads and
    saves.
  \<^item> \<open>Process_Ends\<close>: the schedules of threads under which the process ends,
    and its ends.
  \<^item> \<open>Commands\<close>: the command tree (lines 26 to 54, 79 to 95, 183 to 188, 210
    to 218, 253 to 256): \<open>init\<close>, which adds the command \<^verbatim>\<open>chain\<close> to the root
    command, and the three sub-commands as records of their name, their
    declared flags with defaults, \<^verbatim>\<open>cobra.NoArgs\<close> and their body as a function of
    the flag values; \<open>execute\<close> and \<open>chain_main\<close> are the library's assignment
    of flags and dispatch, from their contract.
  \<^item> this theory: the properties that span the components.

  \<^bold>\<open>What is proved.\<close> For the extractor: the loops compute the reference
  batch \<open>txs_changes\<close> and the view \<open>register_all\<close> exactly when every
  transaction is fine (\<open>extract_block_refines\<close>, \<open>extract_block_fails_iff\<close>);
  within a transaction spends precede creations (\<open>process_tx_order\<close>); every
  change of a batch carries the block's height, a 20-byte claim id and a
  proper type (\<open>extract_block_wf\<close>); the first unresolved input panics
  (\<open>missing_input_panics\<close>); the source's order of registering outputs before
  resolving inputs agrees with the specified order unless a transaction names
  its own outputs (\<open>process_tx_spec_equiv\<close>, \<open>self_spend_diverges\<close>).
  For the replay engine: the loop is the step function folded over
  \<open>heights from to\<close>; a successful replay has verified the hash at every height
  it passed (\<open>replay_verifies_every_height\<close>); the first failing height ends
  the replay with its error (\<open>replay_stops_at_first_error\<close>,
  \<open>replay_invalid_change_type\<close>); a missing batch is an empty batch
  (\<open>replay_not_found_is_empty_batch\<close>); only the heights \<open>from + 1\<close> to \<open>to\<close> of
  the log are read (\<open>replay_reads_only_its_range\<close>); the progress lines are
  the multiples of 1000 (\<open>replay_progress\<close>); a replay that does not start
  at height 0 checks each batch against the wrong block
  (\<open>replay_from_misaligned\<close>); the command wipes the derived state before it
  replays and closes the trie exactly when it created it
  (\<open>replay_command_wipes_first\<close>, \<open>replay_command_closes_trie\<close>). For the
  dump: when \<open>toHeight\<close> is not \<open>MaxInt32\<close> it returns after exactly one test
  per height and one more, having printed the stored batches of the range in
  order up to the first load error, which it returns (\<open>dump_output\<close>,
  \<open>dump_scenario\<close>); when \<open>toHeight\<close> is \<open>MaxInt32\<close> it never returns
  (\<open>dump_never_returns\<close>). For the converter: the channel
  operations and \<^verbatim>\<open>changes[0]\<close> are safe in every observable state
  (\<open>channels_safe\<close>); whatever the schedule, at every moment the open store
  is a prefix of the sequential scan, also after a failed save and while the
  process is dying of a panic
  (\<open>store_is_scan_prefix\<close>; every step keeps the store or saves the next
  batch of the scan, \<open>scan_simulation\<close>), and when \<^verbatim>\<open>wait\<close> returns it is the whole scan
  (\<open>convert_correct\<close>); height by height the store holds the batches of the
  first \<^verbatim>\<open>changesSaved\<close> heights with claim activity, at the end those of
  every such height below the limit, and is untouched elsewhere
  (\<open>converted_batches\<close>, \<open>convert_seq_untouched\<close>,
  \<open>scenario_tip_not_converted\<close>); the batches in flight and in the store stay
  typed (\<open>store_typed\<close>); a ledger of fine blocks never panics the pipeline
  (\<open>convert_no_panic\<close>); every fair schedule ends the conversion, in a
  panic, a return of \<^verbatim>\<open>wait\<close> or the deadlock a failed store leaves
  (\<open>convert_terminates\<close>), and so gives total correctness (\<open>convert_total\<close>
  below); the counters are ordered and bounded by 200000 (\<open>stats_bounded\<close>);
  a logged line need not be the counters of one moment, but no counter goes
  backwards from line to line (\<open>reports_monotone\<close>); a store failure can
  block the pipeline for ever (\<open>store_failure_blocks_forever\<close>), and when it
  does not the command still reports success
  (\<open>convert_command_hides_store_failure\<close>). For the process of the
  command: under every schedule of the main goroutine and the others the log
  follows the protocol of the handles, so no block is read after \<^verbatim>\<open>db.Close\<close>
  and nothing is saved after \<^verbatim>\<open>chainRepo.Close\<close>, and a command that has
  returned holds no handle (\<open>calls_conform\<close>); the blocks are read and the
  batches saved in the order of the sequential scan, each once
  (\<open>calls_in_order\<close>); under every schedule that gives the main goroutine
  its turns and the goroutines enough rounds the process ends in a panic, in
  a return with everything closed, or blocked in \<^verbatim>\<open>wait\<close> with the database
  open (\<open>process_ends\<close>); \<open>convert_command\<close> is the process seen from
  outside (\<open>convert_command_process\<close>). Across the commands: the dump of a
  converted log prints the extracted changes of the blocks of the range
  (\<open>convert_dump_roundtrip\<close>); the replay of a converted log applies the
  extracted batches of the heights from 1 on (\<open>convert_then_replay\<close>), the
  log of an interrupted conversion replays like the complete one up to the
  last height it has saved (\<open>interrupted_then_replay\<close>), and no replay of a
  converted log
  reaches the default branch of its switch (\<open>converted_log_type_safe\<close>); the
  scenario of the specification runs end to end (\<open>scenario_end_to_end\<close>). For
  the command line: the \<^verbatim>\<open>height\<close> flag of \<^verbatim>\<open>convert\<close> has no effect
  (\<open>convert_ignores_height\<close>) and a \<^verbatim>\<open>replay\<close> over an empty range, the default,
  still wipes the derived state (\<open>replay_empty_range\<close>).

  \<^bold>\<open>Modelling decisions.\<close> Heights are 32-bit words with signed comparison, so
  that wrap-around at \<open>MaxInt32\<close> is part of the model. Output positions are
  natural numbers converted with \<open>of_nat\<close> as \<^verbatim>\<open>uint32(i)\<close> does. A script is
  a byte list and the decoder a function parameter; theorems that need it
  assume \<open>wf_codec\<close> only. The loops of the extractor range over finite lists and
  the replay loop is a total function (its measure is the distance to
  \<open>toHeight\<close>, which \<^verbatim>\<open>ht < toHeight\<close> keeps from wrapping). The dump loop takes
  fuel because it need not end; \<open>dump_fuel\<close>, one unit per height of the range
  and one for the last test, is proved to be enough whenever it ends.
  The goroutines interleave at channel operations: a step is atomic, and the
  counters, which the source updates without synchronisation, change only
  inside steps. The statistics are natural numbers; \<open>stats_bounded\<close> shows the
  \<^verbatim>\<open>int\<close> of the source is wide enough. \<^verbatim>\<open>reportStats\<close> reads the counters in
  the order its log call names them, and every read sees the latest value;
  the language fixes neither for reads that are not synchronised. A panic of
  a goroutine ends the process, but not at once: in \<open>reachable\<close> a crashed
  state has no step, and \<open>dying\<close> continues it with the deferred calls of
  \<^verbatim>\<open>processBlock\<close> (\<open>panic_deferred\<close>) and the steps \<^verbatim>\<open>getBlock\<close>, \<^verbatim>\<open>saveChanges\<close>
  and \<^verbatim>\<open>reportStats\<close> may still take before the runtime exits. The theorems
  on the store and the channels are stated for \<open>observable\<close> states, which
  are both; those on termination and on the process of the command end at
  the panic. The capacity of the channels is a parameter of
  \<open>make_converter\<close> (1000 in \<open>new_converter\<close>, as in the command) so that small
  instances can be run; the theorems hold for every capacity, those about
  termination for every capacity of at least one. Safety is proved for all
  schedules, termination for the fair ones: a schedule is a list of goroutine
  names, a round of it is complete as soon as each of the three goroutines of
  the wait group has been named, and a schedule with \<open>5 * limit + 5\<close> rounds
  ends the conversion. That bound is the value of \<open>conv_measure\<close> at the start:
  a round in which nothing moved has found all three goroutines blocked, and
  then they stay blocked, so every round before that lowers the measure. A schedule that
  starves a goroutine for ever is not fair, and nothing is claimed for it. In
  the process of the command the goroutines are not stopped when the main
  goroutine returns; that they make no call on a closed handle is proved from
  the wait group, not assumed. Deferred calls run in the step in which their
  goroutine returns. On
  the command line an argument is a flag with the integer written for it or a
  positional word; the lexing of the words is the library's.

  \<^bold>\<open>Not modelled.\<close> Paths, log and print statements other than the progress
  line of \<^verbatim>\<open>replay\<close> and the lines of \<^verbatim>\<open>reportStats\<close>, timing (the ticker of
  \<^verbatim>\<open>reportStats\<close> is a goroutine that may run at any time), the help texts of
  the commands, and the packages the file calls, which are modelled from their contracts
  only. \<^verbatim>\<open>replay\<close> and \<^verbatim>\<open>dump\<close> close neither the store nor the block database
  they open; of their handles only the trie of \<^verbatim>\<open>replay\<close> is modelled
  (\<open>trieClosed\<close>).
\<close>

section \<open>The conversion as a whole\<close>

text \<open>
  C4: Total correctness of the \<^verbatim>\<open>convert\<close> command. When the block database
  and the chain load, the store opens and its saves do not fail, every height
  below the fetch limit has a block and no block makes the extractor panic,
  then under every fair schedule of five rounds per height and five more (each
  of the three goroutines named at least once per round, in any order) the
  command returns, and the store then holds what the sequential converter
  stores.
\<close>

theorem convert_total:
  assumes "cwBlocksDB w" and "cwChain w = Some c" and "cwStore w = Some r"
    and "\<forall>h. \<not> saveFails r h"
    and "list_all (\<lambda>h. BlockByHeight c h \<noteq> None) (heights 0 (fetch_limit c))"
    and "blocks_ok (cwCodec w) NewUtxoViewpoint (fetched c (fetch_limit c))"
    and "5 * nat (sint (fetch_limit c)) + 5 \<le> fair_rounds [] sch"
  shows "\<exists>s. convert_command w sch = Converted s \<and> scRepo s = convert_seq (cwCodec w) c r"
proof -
  let ?env = "\<lparr>envCodec = cwCodec w, envChain = c, envStore = cwStore w\<rparr>"
  let ?s = "run ?env sch (start (make_converter 1000))"
  have "wait_returns ?s \<and> crashed ?s = None \<and>
      scRepo ?s = convert_seq (envCodec ?env) (envChain ?env) r"
    using assms by (intro fair_total [of 1000 ?env r sch]) simp_all
  with assms(1,2) show ?thesis
    by (simp add: convert_command_def new_converter_def Let_def)
qed

theorem convert_total_witness:
  "\<exists>s. convert_command longer_world (uneven 25) = Converted s \<and>
      scRepo s = convert_seq toy_codec longer_chain empty_repo"
proof -
  have "cwBlocksDB longer_world" "cwChain longer_world = Some longer_chain"
    "cwStore longer_world = Some empty_repo" "\<forall>h. \<not> saveFails empty_repo h"
    "list_all (\<lambda>h. BlockByHeight longer_chain h \<noteq> None) (heights 0 (fetch_limit longer_chain))"
    "blocks_ok (cwCodec longer_world) NewUtxoViewpoint
       (fetched longer_chain (fetch_limit longer_chain))"
    "5 * nat (sint (fetch_limit longer_chain)) + 5 \<le> fair_rounds [] (uneven 25)"
    by (simp_all add: conv_eval scan_eval tx_ok_def txin_ok_def txout_ok_def fair_rounds_uneven)
  from convert_total [OF this] show ?thesis by (simp add: longer_world_def)
qed


section \<open>From the converter to the other two commands\<close>

text \<open>
  Whatever the schedule, a \<^verbatim>\<open>convert\<close> command that has returned over a
  well-formed chain and a store whose saves do not fail leaves the store of the
  sequential scan.
\<close>

lemma converted_store:
  assumes "convert_command w sch = Converted s" and "cwChain w = Some c" and "wf_chain c"
    and "cwStore w = Some r" and "\<forall>h. \<not> saveFails r h"
  shows "scRepo s = convert_seq (cwCodec w) c r"
proof -
  let ?env = "\<lparr>envCodec = cwCodec w, envChain = c, envStore = cwStore w\<rparr>"
  from assms(1,2) have s: "s = run ?env sch (start (make_converter 1000))"
    and nc: "crashed s = None" and w: "wait_returns s"
    by (auto simp: convert_command_def new_converter_def Let_def split: if_splits option.splits)
  have r: "reachable ?env 1000 s" unfolding s by (intro reachable_run reachable_start)
  from w wait_returns_iff [OF reachable_chan_inv [OF r] nc] have "all_returned s" by simp
  from final_store [OF r this nc, of r] assms(3-5) wf_chain_complete [of c] show ?thesis
    by simp
qed

lemma converted_reachable:
  assumes "convert_command w sch = Converted s" and "cwChain w = Some c"
  shows "reachable \<lparr>envCodec = cwCodec w, envChain = c, envStore = cwStore w\<rparr> 1000 s"
proof -
  from assms have "s = run \<lparr>envCodec = cwCodec w, envChain = c, envStore = cwStore w\<rparr> sch
      (start (make_converter 1000))"
    by (auto simp: convert_command_def new_converter_def Let_def split: if_splits option.splits)
  then show ?thesis by (simp add: reachable_run reachable_start)
qed

lemma below_limit_not_max: "b <s fetch_limit c \<Longrightarrow> b \<noteq> MaxInt32"
  using fetch_limit_le [of c] by (auto simp: word_sle_eq word_sless_alt sint_MaxInt32)

text \<open>
  C9: Round trip through the change log. When \<^verbatim>\<open>convert\<close> has returned, under
  whatever schedule, over a well-formed chain and a store that was empty and
  does not fail, then \<^verbatim>\<open>dump\<close> of a range of heights below the fetch limit
  prints exactly the changes the extractor derives from the blocks of these
  heights: block by block in ascending height, each block's changes in the
  order of extraction; a block without claim activity contributes nothing.
\<close>

theorem convert_dump_roundtrip:
  assumes "convert_command w sch = Converted s" and "cwChain w = Some c" and "wf_chain c"
    and "cwStore w = Some r" and "batches r = Map.empty" and "sound_repo r"
    and "0 \<le>s a" and "b <s fetch_limit c" and "dump_fuel a b \<le> fuel"
  shows "dump fuel (Some (scRepo s)) a b =
           Some (concat (map (batch_at (cwCodec w) c) (heights a (b + 1))), None)"
proof -
  let ?x = "cwCodec w"
  from assms(6) have ok: "\<forall>h. \<not> saveFails r h" "\<forall>h. \<not> loadFails r h"
    by (simp_all add: sound_repo_def)
  have repo: "scRepo s = convert_seq ?x c r"
    by (rule converted_store [OF assms(1-4) ok(1)])
  have "stored (convert_seq ?x c r) h = batch_at ?x c h" if "h \<in> set (heights a (b + 1))" for h
  proof -
    from that assms(7,8) have "0 \<le>s h" "h <s fetch_limit c"
      by (auto simp: set_heights word_sle_eq word_sless_alt sless_sint_succ [of b "fetch_limit c"])
    then show ?thesis by (rule stored_convert_seq [OF assms(3,5)])
  qed
  then have eq: "map (stored (convert_seq ?x c r)) (heights a (b + 1)) =
      map (batch_at ?x c) (heights a (b + 1))"
    by simp
  from ok(2) have "list_all (\<lambda>h. \<not> loadFails (convert_seq ?x c r) h) (heights a (b + 1))"
    by (simp add: convert_seq_def list_all_iff)
  from dump_over_sound [OF this, of "[]"]
  have "dump_over (convert_seq ?x c r) (heights a (b + 1)) [] =
      (concat (map (batch_at ?x c) (heights a (b + 1))), None)"
    by (simp only: eq append_Nil)
  with assms(9) below_limit_not_max [OF assms(8)] show ?thesis
    by (simp add: repo dump_def dump_fuel_def dump_loop_heights)
qed

lemma longer_converted:
  "\<exists>s. convert_command longer_world (uneven 12) = Converted s"
  by (simp add: conv_eval uneven_numeral)

theorem convert_dump_roundtrip_witness:
  "\<exists>s. convert_command longer_world (uneven 12) = Converted s \<and>
      dump 4 (Some (scRepo s)) 1 3 = Some (batch1 @ batch2 @ batch3, None)"
proof -
  from longer_converted obtain s where s: "convert_command longer_world (uneven 12) = Converted s" ..
  have "cwChain longer_world = Some longer_chain" "cwStore longer_world = Some empty_repo"
    "batches empty_repo = Map.empty" "sound_repo empty_repo" "(0::int32) \<le>s 1"
    "3 <s fetch_limit longer_chain" "dump_fuel 1 3 \<le> 4"
    by (simp_all add: conv_eval sound_repo_def dump_fuel_def)
  from convert_dump_roundtrip [OF s this(1) wf_longer_chain this(2-7)] s show ?thesis
    by (simp add: longer_world_def heights.simps int32_eval log_eval batch1_def batch2_def
        batch3_def)
qed

text \<open>
  C5: Replay re-executes the ledger. When \<^verbatim>\<open>convert\<close> has returned, under
  whatever schedule, over a well-formed chain and a store that was empty and
  does not fail, the replay of the converted log from height 0 to a height
  below the fetch limit is the loop that applies to the trie, for every height
  from 1 on, the changes extracted from the block of that height, commits a
  block and compares the hash with that block's header. The changes of the
  block of height 0 are never replayed.
\<close>

theorem convert_then_replay:
  assumes "convert_command w sch = Converted s" and "cwChain w = Some c" and "wf_chain c"
    and "cwStore w = Some r" and "batches r = Map.empty" and "sound_repo r"
    and "to <s fetch_limit c"
  shows "replay ops (scRepo s) c 0 to ct =
           replay_batches ops c (map (\<lambda>h. batch_at (cwCodec w) c (h + 1)) (heights 0 to))
             \<lparr>trie = ct, progress = []\<rparr>"
proof -
  let ?x = "cwCodec w"
  from assms(6) have ok: "\<forall>h. \<not> saveFails r h" "\<forall>h. \<not> loadFails r h"
    by (simp_all add: sound_repo_def)
  have repo: "scRepo s = convert_seq ?x c r"
    by (rule converted_store [OF assms(1-4) ok(1)])
  have "stored (convert_seq ?x c r) (h + 1) = batch_at ?x c (h + 1)"
    if "h \<in> set (heights 0 to)" for h
  proof -
    from that have "0 \<le>s h" "h <s to" by (simp_all add: set_heights)
    with assms(7) have "0 \<le>s h + 1" "h + 1 <s fetch_limit c"
      by (auto simp: word_sle_eq word_sless_alt sless_sint_succ [of h to])
    then show ?thesis by (rule stored_convert_seq [OF assms(3,5)])
  qed
  then have eq: "map (\<lambda>h. stored (convert_seq ?x c r) (h + 1)) (heights 0 to) =
      map (\<lambda>h. batch_at ?x c (h + 1)) (heights 0 to)"
    by simp
  from ok(2) have "list_all (\<lambda>h. \<not> loadFails (convert_seq ?x c r) (h + 1)) (heights 0 to)"
    by (simp add: convert_seq_def list_all_iff)
  from replay_over_batches [OF this] show ?thesis
    by (simp only: repo replay_def replay_loop_heights eq)
qed

theorem convert_then_replay_witness:
  "\<exists>s. convert_command longer_world (uneven 12) = Converted s \<and>
      replay toy_ops (scRepo s) longer_chain 0 3 toy_new =
        replay_batches toy_ops longer_chain [batch1, batch2, batch3]
          \<lparr>trie = toy_new, progress = []\<rparr>"
proof -
  from longer_converted obtain s where s: "convert_command longer_world (uneven 12) = Converted s" ..
  have "cwChain longer_world = Some longer_chain" "cwStore longer_world = Some empty_repo"
    "batches empty_repo = Map.empty" "sound_repo empty_repo" "3 <s fetch_limit longer_chain"
    by (simp_all add: conv_eval sound_repo_def)
  from convert_then_replay [OF s this(1) wf_longer_chain this(2-5), of toy_ops toy_new] s
  show ?thesis
    by (simp add: longer_world_def heights.simps int32_eval log_eval batch1_def batch2_def
        batch3_def)
qed

text \<open>
  C10: The log of an interrupted conversion replays like the complete one as
  far as it goes. In every state the pipeline can be in with the store open,
  also after a failed save or while it is dying of a panic, over a well-formed
  chain and a store that was empty and whose loads do not fail: when every
  height from 1 to \<open>to\<close> with claim activity is among the first
  \<^verbatim>\<open>changesSaved\<close> heights with claim activity, the replay of the store from 0
  to \<open>to\<close> is the loop over the changes extracted from the blocks of these
  heights, the same as over the log of a conversion that has ended.
\<close>

theorem interrupted_then_replay:
  assumes "observable env n s" and "envStore env = Some r" and "store_open (scPc s)"
    and "wf_chain (envChain env)" and "batches r = Map.empty" and "\<forall>h. \<not> loadFails r h"
    and "list_all (\<lambda>h. batch_at (envCodec env) (envChain env) (h + 1) \<noteq> [] \<longrightarrow>
           h + 1 \<in> set (take (changesSaved (stats s))
                           (claim_heights (envCodec env) (envChain env))))
           (heights 0 to)"
  shows "replay ops (scRepo s) (envChain env) 0 to ct =
           replay_batches ops (envChain env)
             (map (\<lambda>h. batch_at (envCodec env) (envChain env) (h + 1)) (heights 0 to))
             \<lparr>trie = ct, progress = []\<rparr>"
proof -
  let ?x = "envCodec env" and ?c = "envChain env" and ?k = "changesSaved (stats s)"
  from store_prefix [OF assms(1-3)] have repo: "scRepo s = scan_prefix ?x ?c ?k r" ..
  from assms(7) have "stored (scan_prefix ?x ?c ?k r) (h + 1) = batch_at ?x ?c (h + 1)"
    if "h \<in> set (heights 0 to)" for h
    using that by (auto simp: stored_scan_prefix [OF assms(4,5)] list_all_iff)
  then have eq: "map (\<lambda>h. stored (scan_prefix ?x ?c ?k r) (h + 1)) (heights 0 to) =
      map (\<lambda>h. batch_at ?x ?c (h + 1)) (heights 0 to)"
    by simp
  from assms(6) have "list_all (\<lambda>h. \<not> loadFails (scan_prefix ?x ?c ?k r) (h + 1)) (heights 0 to)"
    by (simp add: scan_prefix_def list_all_iff)
  from replay_over_batches [OF this] show ?thesis
    by (simp only: repo replay_def replay_loop_heights eq)
qed

theorem interrupted_then_replay_witness:
  "scPc (run (example_env\<lparr>envStore := Some (empty_repo\<lparr>saveFails := (\<lambda>h. h = 2)\<rparr>)\<rparr>)
           (rounds 9) (start (make_converter 2))) = ScSaveFailed \<and>
   replay toy_ops
     (scRepo (run (example_env\<lparr>envStore := Some (empty_repo\<lparr>saveFails := (\<lambda>h. h = 2)\<rparr>)\<rparr>)
                (rounds 9) (start (make_converter 2))))
     example_chain 0 1 toy_new =
   replay_batches toy_ops example_chain [batch1] \<lparr>trie = toy_new, progress = []\<rparr>"
proof -
  let ?r = "empty_repo\<lparr>saveFails := (\<lambda>h. h = 2)\<rparr>"
  let ?env = "example_env\<lparr>envStore := Some ?r\<rparr>"
  let ?s = "run ?env (rounds 9) (start (make_converter 2))"
  have b: "batch_at toy_codec example_chain 1 = batch1" "batch_at toy_codec example_chain 2 = batch2"
    "batch_at toy_codec example_chain 0 = []"
    by (simp_all add: log_eval batch1_def batch2_def)
  then have h: "claim_heights toy_codec example_chain = [1, 2]"
    by (simp add: claim_heights_def fetch_limit_def example_chain_def int32_eval heights.simps
        batch1_def batch2_def)
  have s: "scPc ?s = ScSaveFailed" "changesSaved (stats ?s) = 1"
    by (simp_all add: conv_eval)
  have e: "envCodec ?env = toy_codec" "envChain ?env = example_chain"
    by (simp_all add: example_env_def)
  have "observable ?env 2 ?s" by (intro reachable_observable reachable_run reachable_start)
  moreover have "envStore ?env = Some ?r" by simp
  moreover from s(1) have "store_open (scPc ?s)" by simp
  moreover have "wf_chain (envChain ?env)" "batches ?r = Map.empty" "\<forall>h. \<not> loadFails ?r h"
    using wf_example_chain by (simp_all add: example_env_def empty_repo_def)
  moreover have "list_all (\<lambda>h. batch_at (envCodec ?env) (envChain ?env) (h + 1) \<noteq> [] \<longrightarrow>
      h + 1 \<in> set (take (changesSaved (stats ?s)) (claim_heights (envCodec ?env) (envChain ?env))))
      (heights 0 1)"
    unfolding e s h by (simp add: heights.simps int32_eval)
  ultimately have "replay toy_ops (scRepo ?s) (envChain ?env) 0 1 toy_new =
      replay_batches toy_ops (envChain ?env)
        (map (\<lambda>h. batch_at (envCodec ?env) (envChain ?env) (h + 1)) (heights 0 1))
        \<lparr>trie = toy_new, progress = []\<rparr>"
    by (rule interrupted_then_replay)
  with s(1) b(1) show ?thesis by (simp add: e heights.simps int32_eval)
qed

text \<open>
  C22: A log written by the converter never takes the replay engine into the
  default branch of its switch. When the decoder keeps its contract and the
  store the converter opens is typed, the store of every state the pipeline
  can be in, also of a conversion that was interrupted or panicked, replays
  without
  the invalid-change-type error, whatever the range and the trie.
\<close>

theorem converted_log_type_safe:
  assumes "observable env n s" and "wf_codec (envCodec env)"
    and "\<forall>r. envStore env = Some r \<longrightarrow> typed_repo r"
  shows "replay ops (scRepo s) c a b ct \<noteq> Inl (ExecuteChangeFailed chg InvalidChangeType)"
proof -
  from observable_type_inv [OF assms] have "typed_repo (scRepo s)" by (simp add: type_inv_def)
  then show ?thesis by (simp add: replay_def replay_loop_heights replay_over_typed)
qed

theorem converted_log_type_safe_witness:
  "replay toy_ops (scRepo (run example_env (rounds 5) (start (make_converter 2)))) example_chain
     0 3 toy_new \<noteq>
   Inl (ExecuteChangeFailed (hd batch1\<lparr>Type := OtherType\<rparr>) InvalidChangeType)"
proof -
  have "observable example_env 2 (run example_env (rounds 5) (start (make_converter 2)))"
    by (intro reachable_observable reachable_run reachable_start)
  moreover have "wf_codec (envCodec example_env)"
    "\<forall>r. envStore example_env = Some r \<longrightarrow> typed_repo r"
    using wf_toy_codec by (simp_all add: example_env_def)
  ultimately show ?thesis by (rule converted_log_type_safe)
qed

section \<open>The scenario of the specification\<close>

lemma longer_run:
  "scRepo (run longer_env (rounds 12) (start new_converter)) = example_repo"
  "wait_returns (run longer_env (rounds 12) (start new_converter))"
  by (simp_all add: conv_eval example_repo_def batch1_def batch2_def batch3_def)



end
